theory Spec2Isabelle
  imports Complex_Main
begin

section \<open>The element type floatX\<close>

text \<open>
  The module computes on tensors of the configured floating type
  (\<^verbatim>\<open>theano.config.floatX\<close>).  A value of that type is modelled as a finite
  number, one of the two infinities, or NaN.  Arithmetic on finite values is
  exact (no rounding, no overflow); the special values follow IEEE 754, so a
  division by zero is visible as an infinity or a NaN and not as HOL's
  \<open>x / 0 = 0\<close>.  Signed zeros are not distinguished: the only zero divisor the
  module can produce is \<open>1.0 - 1.0\<close>, which is \<open>+0\<close>.
\<close>

datatype floatX = Fin real | PInf | NInf | NaN

fun inf_of_sign :: "real \<Rightarrow> floatX" where
  "inf_of_sign s = (if s = 0 then NaN else if 0 < s then PInf else NInf)"

instantiation floatX :: "{plus, uminus, minus, times, divide, ord}"
begin

fun uminus_floatX :: "floatX \<Rightarrow> floatX" where
  "uminus_floatX (Fin a) = Fin (- a)"
| "uminus_floatX PInf = NInf"
| "uminus_floatX NInf = PInf"
| "uminus_floatX NaN = NaN"

fun plus_floatX :: "floatX \<Rightarrow> floatX \<Rightarrow> floatX" where
  "plus_floatX (Fin a) (Fin b) = Fin (a + b)"
| "plus_floatX NaN _ = NaN"
| "plus_floatX _ NaN = NaN"
| "plus_floatX PInf NInf = NaN"
| "plus_floatX NInf PInf = NaN"
| "plus_floatX PInf _ = PInf"
| "plus_floatX _ PInf = PInf"
| "plus_floatX NInf _ = NInf"
| "plus_floatX _ NInf = NInf"

definition minus_floatX :: "floatX \<Rightarrow> floatX \<Rightarrow> floatX" where
  "minus_floatX a b = a + (- b)"

fun times_floatX :: "floatX \<Rightarrow> floatX \<Rightarrow> floatX" where
  "times_floatX (Fin a) (Fin b) = Fin (a * b)"
| "times_floatX NaN _ = NaN"
| "times_floatX _ NaN = NaN"
| "times_floatX (Fin a) PInf = inf_of_sign a"
| "times_floatX (Fin a) NInf = inf_of_sign (- a)"
| "times_floatX PInf (Fin b) = inf_of_sign b"
| "times_floatX NInf (Fin b) = inf_of_sign (- b)"
| "times_floatX PInf PInf = PInf"
| "times_floatX PInf NInf = NInf"
| "times_floatX NInf PInf = NInf"
| "times_floatX NInf NInf = PInf"

fun divide_floatX :: "floatX \<Rightarrow> floatX \<Rightarrow> floatX" where
  "divide_floatX (Fin a) (Fin b) = (if b = 0 then inf_of_sign a else Fin (a / b))"
| "divide_floatX NaN _ = NaN"
| "divide_floatX _ NaN = NaN"
| "divide_floatX (Fin a) PInf = Fin 0"
| "divide_floatX (Fin a) NInf = Fin 0"
| "divide_floatX PInf (Fin b) = (if b < 0 then NInf else PInf)"
| "divide_floatX NInf (Fin b) = (if b < 0 then PInf else NInf)"
| "divide_floatX PInf PInf = NaN"
| "divide_floatX PInf NInf = NaN"
| "divide_floatX NInf PInf = NaN"
| "divide_floatX NInf NInf = NaN"

fun less_floatX :: "floatX \<Rightarrow> floatX \<Rightarrow> bool" where
  "less_floatX (Fin a) (Fin b) = (a < b)"
| "less_floatX NaN _ = False"
| "less_floatX _ NaN = False"
| "less_floatX PInf _ = False"
| "less_floatX _ NInf = False"
| "less_floatX NInf _ = True"
| "less_floatX _ PInf = True"

definition less_eq_floatX :: "floatX \<Rightarrow> floatX \<Rightarrow> bool" where
  "less_eq_floatX a b = (a < b \<or> (a = b \<and> a \<noteq> NaN))"

instance ..

end

instantiation floatX :: inverse
begin

definition inverse_floatX :: "floatX \<Rightarrow> floatX" where
  "inverse_floatX a = divide (Fin 1) a"

instance ..

end

text \<open>\<^verbatim>\<open>theano.tensor.floor\<close>: the special values are their own floor.\<close>

fun ffloor :: "floatX \<Rightarrow> floatX" where
  "ffloor (Fin a) = Fin (of_int \<lfloor>a\<rfloor>)"
| "ffloor v = v"

text \<open>
  \<^verbatim>\<open>theano.tensor.mod\<close> (also written \<^verbatim>\<open>%\<close>): the remainder with the sign of the
  divisor, as in Python; NaN for a zero divisor or an infinite dividend.
\<close>

fun fmod :: "floatX \<Rightarrow> floatX \<Rightarrow> floatX" where
  "fmod (Fin a) (Fin b) = (if b = 0 then NaN else Fin (a - b * of_int \<lfloor>a / b\<rfloor>))"
| "fmod (Fin a) PInf = (if a < 0 then PInf else Fin a)"
| "fmod (Fin a) NInf = (if 0 < a then NInf else Fin a)"
| "fmod _ _ = NaN"

text \<open>
  \<^verbatim>\<open>theano.tensor.clip(x, min, max)\<close>: \<^verbatim>\<open>min\<close> if \<^verbatim>\<open>x < min\<close>, else \<^verbatim>\<open>max\<close> if
  \<^verbatim>\<open>x > max\<close>, else \<^verbatim>\<open>x\<close>; a NaN compares false and passes through.
\<close>

definition fclip :: "floatX \<Rightarrow> floatX \<Rightarrow> floatX \<Rightarrow> floatX" where
  "fclip x lo hi = (if x < lo then lo else if hi < x then hi else x)"

text \<open>\<^verbatim>\<open>theano.tensor.minimum\<close>: the smaller value; NaN if either is NaN.\<close>

definition fminimum :: "floatX \<Rightarrow> floatX \<Rightarrow> floatX" where
  "fminimum a b = (if a = NaN \<or> b = NaN then NaN else if a < b then a else b)"

text \<open>
  \<^verbatim>\<open>theano.tensor.cast(v, 'int64')\<close> of a float truncates toward zero.  The cast
  of an infinity or a NaN is not defined by the platform: \<open>None\<close>.  Indices
  are unbounded integers: the values cast are bounded by the image sizes, far
  below \<open>2 ^ 63\<close>.
\<close>

definition trunc :: "real \<Rightarrow> int" where
  "trunc a = (if 0 \<le> a then \<lfloor>a\<rfloor> else - \<lfloor>- a\<rfloor>)"

fun cast_int64 :: "floatX \<Rightarrow> int option" where
  "cast_int64 (Fin a) = Some (trunc a)"
| "cast_int64 _ = None"

text \<open>\<^verbatim>\<open>theano.tensor.cast(n, floatX)\<close> of an integer.\<close>

definition cast_floatX :: "int \<Rightarrow> floatX" where
  "cast_floatX n = Fin (of_int n)"

section \<open>Tensors and the array operations the module calls\<close>

text \<open>
  A tensor is its shape and its elements in row-major order, as numpy stores
  it.  The operations below are the ones of \<^verbatim>\<open>theano.tensor\<close> that the module
  calls, on concrete arrays; where the library raises, the model returns an
  error.
\<close>

record 'a tensor =
  shape :: "nat list"
  data :: "'a list"

datatype error =
    AssertionError
  | ValueError_unpack
  | ValueError_border_mode
  | ValueError_shape
  | IndexError
  | Undefined_cast

definition ebind :: "error + 'a \<Rightarrow> ('a \<Rightarrow> error + 'b) \<Rightarrow> error + 'b" where
  "ebind m f = (case m of Inl e \<Rightarrow> Inl e | Inr v \<Rightarrow> f v)"

definition wf_tensor :: "'a tensor \<Rightarrow> bool" where
  "wf_tensor t = (length (data t) = prod_list (shape t))"

fun is_fin :: "floatX \<Rightarrow> bool" where
  "is_fin (Fin a) = True"
| "is_fin v = False"

text \<open>The number a finite \<open>floatX\<close> stands for.\<close>

fun the_fin :: "floatX \<Rightarrow> real" where
  "the_fin (Fin a) = a"
| "the_fin v = 0"

text \<open>Row-major position of a multi-index, and back.\<close>

fun ravel :: "nat list \<Rightarrow> nat list \<Rightarrow> nat" where
  "ravel (d # ds) (i # is) = i * prod_list ds + ravel ds is"
| "ravel ds is = 0"

fun unravel :: "nat list \<Rightarrow> nat \<Rightarrow> nat list" where
  "unravel [] k = []"
| "unravel (d # ds) k = (k div prod_list ds) # unravel ds (k mod prod_list ds)"

fun index_of :: "'a \<Rightarrow> 'a list \<Rightarrow> nat" where
  "index_of a [] = 0"
| "index_of a (b # bs) = (if b = a then 0 else Suc (index_of a bs))"

text \<open>\<^verbatim>\<open>theano.tensor.ones(shape)\<close>; a negative dimension is refused.\<close>

definition ones :: "int list \<Rightarrow> error + floatX tensor" where
  "ones shp =
     (if list_ex (\<lambda>d. d < 0) shp then Inl ValueError_shape
      else Inr \<lparr>shape = map nat shp, data = replicate (prod_list (map nat shp)) (Fin 1)\<rparr>)"

definition ones_like :: "floatX tensor \<Rightarrow> floatX tensor" where
  "ones_like t = \<lparr>shape = shape t, data = replicate (prod_list (shape t)) (Fin 1)\<rparr>"

text \<open>\<^verbatim>\<open>theano.tensor.arange(num, dtype=floatX)\<close>: empty for \<open>num \<le> 0\<close>.\<close>

definition arange :: "int \<Rightarrow> floatX tensor" where
  "arange num = \<lparr>shape = [nat num], data = map (\<lambda>i. Fin (real i)) [0..<nat num]\<rparr>"

text \<open>
  \<^verbatim>\<open>t.dimshuffle(pattern)\<close>: \<open>Some d\<close> puts axis \<open>d\<close> of the input at that place,
  \<open>None\<close> (written \<^verbatim>\<open>'x'\<close> in the source) inserts an axis of length one.  Every
  axis of the input has to be named once.
\<close>

definition dimshuffle :: "nat option list \<Rightarrow> 'a tensor \<Rightarrow> error + 'a tensor" where
  "dimshuffle pat t =
     (let n = length (shape t) in
      if \<not> (list_all (\<lambda>d. count_list pat (Some d) = 1) [0..<n]
             \<and> list_all (\<lambda>p. case p of None \<Rightarrow> True | Some d \<Rightarrow> d < n) pat)
      then Inl ValueError_shape
      else
        let ns = map (\<lambda>p. case p of None \<Rightarrow> 1 | Some d \<Rightarrow> shape t ! d) pat in
        Inr \<lparr>shape = ns,
             data = map (\<lambda>k. data t ! ravel (shape t)
                                (map (\<lambda>d. unravel ns k ! index_of (Some d) pat) [0..<n]))
                        [0..<prod_list ns]\<rparr>)"

text \<open>
  \<^verbatim>\<open>t.reshape(newshape)\<close>: same elements, new shape; one entry may be \<open>-1\<close> and
  is then inferred.  The sizes have to agree.
\<close>

definition reshape :: "'a tensor \<Rightarrow> int list \<Rightarrow> error + 'a tensor" where
  "reshape t ns =
     (let sz = length (data t);
          known = prod_list (map nat (filter (\<lambda>d. d \<noteq> - 1) ns));
          holes = count_list ns (- 1)
      in if list_ex (\<lambda>d. d < - 1) ns \<or> 1 < holes then Inl ValueError_shape
         else if holes = 0 then
           (if known = sz then Inr \<lparr>shape = map nat ns, data = data t\<rparr>
            else Inl ValueError_shape)
         else if known = 0 \<or> sz mod known \<noteq> 0 then Inl ValueError_shape
         else Inr \<lparr>shape = map (\<lambda>d. if d = - 1 then sz div known else nat d) ns,
                   data = data t\<rparr>)"

text \<open>
  \<^verbatim>\<open>theano.tensor.dot(a, b)\<close> for a matrix \<open>b\<close>: the sum of products over the
  last axis of \<open>a\<close> and the first axis of \<open>b\<close>.
\<close>

definition dot :: "floatX tensor \<Rightarrow> floatX tensor \<Rightarrow> error + floatX tensor" where
  "dot a b =
     (if length (shape b) \<noteq> 2 \<or> shape a = [] then Inl ValueError_shape
      else if last (shape a) \<noteq> shape b ! 0 then Inl ValueError_shape
      else
        let k = last (shape a); n = shape b ! 1; rows = prod_list (butlast (shape a)) in
        Inr \<lparr>shape = butlast (shape a) @ [n],
             data = map (\<lambda>m. foldl (+) (Fin 0)
                               (map (\<lambda>l. data a ! ((m div n) * k + l) * data b ! (l * n + m mod n))
                                    [0..<k]))
                        [0..<rows * n]\<rparr>)"

text \<open>\<^verbatim>\<open>theano.tensor.concatenate(ts, axis=0)\<close>.\<close>

definition concatenate0 :: "'a tensor list \<Rightarrow> error + 'a tensor" where
  "concatenate0 ts =
     (case ts of
        [] \<Rightarrow> Inl ValueError_shape
      | t # _ \<Rightarrow>
          if list_ex (\<lambda>u. shape u = [] \<or> tl (shape u) \<noteq> tl (shape t)) ts
          then Inl ValueError_shape
          else Inr \<lparr>shape = sum_list (map (\<lambda>u. hd (shape u)) ts) # tl (shape t),
                    data = concat (map data ts)\<rparr>)"

text \<open>\<^verbatim>\<open>t[i, :]\<close>: the \<open>i\<close>-th slice along the first axis.\<close>

definition subtensor0 :: "'a tensor \<Rightarrow> nat \<Rightarrow> error + 'a tensor" where
  "subtensor0 t i =
     (case shape t of
        [] \<Rightarrow> Inl IndexError
      | d # ds \<Rightarrow>
          if i < d
          then Inr \<lparr>shape = ds, data = take (prod_list ds) (drop (i * prod_list ds) (data t))\<rparr>
          else Inl IndexError)"

text \<open>\<^verbatim>\<open>t.flatten()\<close>: the vector of all elements.  A vector is a list.\<close>

definition flatten :: "'a tensor \<Rightarrow> 'a list" where
  "flatten t = data t"

text \<open>\<^verbatim>\<open>theano.tensor.repeat(v, r)\<close>: every element \<open>r\<close> times.\<close>

definition repeat :: "'a list \<Rightarrow> nat \<Rightarrow> 'a list" where
  "repeat v r = concat (map (replicate r) v)"

text \<open>
  Elementwise sum of two index vectors.  Theano refuses operands of different
  lengths (neither is declared broadcastable).
\<close>

definition vadd :: "int list \<Rightarrow> int list \<Rightarrow> error + int list" where
  "vadd a b = (if length a = length b then Inr (map2 (+) a b) else Inl ValueError_shape)"

text \<open>Elementwise \<^verbatim>\<open>theano.tensor.cast(v, 'int64')\<close> of a vector.\<close>

definition cast_int64s :: "floatX list \<Rightarrow> error + int list" where
  "cast_int64s v = (case those (map cast_int64 v) of None \<Rightarrow> Inl Undefined_cast | Some is \<Rightarrow> Inr is)"

text \<open>
  \<^verbatim>\<open>t[idx]\<close> for a matrix \<open>t\<close> and an index vector: the rows named by \<open>idx\<close>.
  A negative index counts from the end; an index outside \<open>[-rows, rows)\<close> is an
  IndexError.
\<close>

definition take_rows :: "'a tensor \<Rightarrow> int list \<Rightarrow> error + 'a tensor" where
  "take_rows t idx =
     (if length (shape t) \<noteq> 2 then Inl IndexError
      else
        let r = shape t ! 0; c = shape t ! 1 in
        if list_ex (\<lambda>i. i < - int r \<or> int r \<le> i) idx then Inl IndexError
        else Inr \<lparr>shape = [length idx, c],
                  data = map (\<lambda>m. data t ! (nat (idx ! (m div c) mod int r) * c + m mod c))
                             [0..<length idx * c]\<rparr>)"

text \<open>
  \<^verbatim>\<open>w.dimshuffle(0, 'x') * t\<close>: the column \<open>w\<close> broadcast along the rows of the
  matrix \<open>t\<close>.
\<close>

definition mul_rows :: "floatX list \<Rightarrow> floatX tensor \<Rightarrow> error + floatX tensor" where
  "mul_rows w t =
     (if length (shape t) \<noteq> 2 \<or> shape t ! 0 \<noteq> length w then Inl ValueError_shape
      else
        let c = shape t ! 1 in
        Inr \<lparr>shape = shape t,
             data = map (\<lambda>m. w ! (m div c) * data t ! m) [0..<length w * c]\<rparr>)"

text \<open>\<^verbatim>\<open>theano.tensor.sum([a, b, c, d], axis=0)\<close> of four equally shaped tensors.\<close>

definition sum4 ::
  "floatX tensor \<Rightarrow> floatX tensor \<Rightarrow> floatX tensor \<Rightarrow> floatX tensor \<Rightarrow> error + floatX tensor"
where
  "sum4 a b c d =
     (if shape b \<noteq> shape a \<or> shape c \<noteq> shape a \<or> shape d \<noteq> shape a then Inl ValueError_shape
      else Inr \<lparr>shape = shape a,
                data = map (\<lambda>m. data a ! m + data b ! m + data c ! m + data d ! m)
                           [0..<prod_list (shape a)]\<rparr>)"

text \<open>Elementwise arithmetic on vectors of equal length.\<close>

definition vsub :: "floatX list \<Rightarrow> floatX list \<Rightarrow> floatX list" where
  "vsub a b = map2 (-) a b"

definition vmul :: "floatX list \<Rightarrow> floatX list \<Rightarrow> floatX list" where
  "vmul a b = map2 (*) a b"

section \<open>The grid generator\<close>

text \<open>
  \<^verbatim>\<open>_linspace(start, stop, num)\<close>, lines 30 to 36: the step is
  \<^verbatim>\<open>(stop - start) / (num - 1)\<close> with no guard on \<^verbatim>\<open>num\<close>.
\<close>

definition linspace :: "floatX \<Rightarrow> floatX \<Rightarrow> int \<Rightarrow> floatX tensor" where
  "linspace start stop num =
     (let numf = cast_floatX num;
          step = (stop - start) / (numf - Fin 1);
          r = arange num
      in \<lparr>shape = shape r, data = map (\<lambda>a. a * step + start) (data r)\<rparr>)"

text \<open>\<^verbatim>\<open>_meshgrid(height, width)\<close>, lines 38 to 48: the rows \<open>x\<close>, \<open>y\<close>, \<open>1\<close>.\<close>

definition meshgrid :: "int \<Rightarrow> int \<Rightarrow> error + floatX tensor" where
  "meshgrid height width =
     ebind (ones [height, 1]) (\<lambda>ones_h.
     ebind (dimshuffle [None, Some 0] (linspace (Fin (- 1)) (Fin 1) width)) (\<lambda>lin_w.
     ebind (dot ones_h lin_w) (\<lambda>x_t.
     ebind (dimshuffle [Some 0, None] (linspace (Fin (- 1)) (Fin 1) height)) (\<lambda>lin_h.
     ebind (ones [1, width]) (\<lambda>ones_w.
     ebind (dot lin_h ones_w) (\<lambda>y_t.
     ebind (reshape x_t [1, - 1]) (\<lambda>x_t_flat.
     ebind (reshape y_t [1, - 1]) (\<lambda>y_t_flat.
     concatenate0 [x_t_flat, y_t_flat, ones_like x_t_flat]))))))))"

text \<open>\<^verbatim>\<open>transformer_grid_impl(theta, out_dims)\<close>, lines 29 to 57.\<close>

definition transformer_grid_impl ::
  "floatX tensor \<Rightarrow> int \<times> int \<times> int \<times> int \<Rightarrow> error + floatX tensor"
where
  "transformer_grid_impl theta out_dims =
     (case out_dims of (num_batch, _, out_height, out_width) \<Rightarrow>
        ebind (meshgrid out_height out_width) (\<lambda>grid.
        ebind (dot theta grid) (\<lambda>transformed_grid.
        ebind (dimshuffle [Some 1, Some 0, Some 2] transformed_grid) (\<lambda>transposed_grid.
        reshape transposed_grid [2, num_batch, out_height, out_width]))))"

section \<open>The bilinear sampler\<close>

text \<open>
  Lines 71 to 75: the \<open>x\<close> and \<open>y\<close> channels of the grid, flattened and scaled
  from \<open>[-1, 1]\<close> to \<open>[0, dimension - 1]\<close>.
\<close>

definition pixel_coords :: "floatX list \<Rightarrow> floatX \<Rightarrow> floatX list" where
  "pixel_coords g dim_f = map (\<lambda>v. (v + Fin 1) / Fin 2 * (dim_f - Fin 1)) g"

definition sampler_xy ::
  "floatX tensor \<Rightarrow> floatX tensor \<Rightarrow> error + (floatX list \<times> floatX list)"
where
  "sampler_xy inp grid =
     (let height = shape inp ! 2; width = shape inp ! 3;
          height_f = cast_floatX (int height); width_f = cast_floatX (int width)
      in ebind (subtensor0 grid 0) (\<lambda>g0.
         ebind (subtensor0 grid 1) (\<lambda>g1.
         Inr (pixel_coords (flatten g0) width_f, pixel_coords (flatten g1) height_f))))"

text \<open>
  Lines 79 to 106: the floor coordinates and their \<open>+1\<close> neighbours, brought
  into the image by the border mode and cast to \<^verbatim>\<open>int64\<close>.
\<close>

definition cast4 ::
  "floatX list \<Rightarrow> floatX list \<Rightarrow> floatX list \<Rightarrow> floatX list
     \<Rightarrow> error + (int list \<times> int list \<times> int list \<times> int list)"
where
  "cast4 x0 x1 y0 y1 =
     ebind (cast_int64s x0) (\<lambda>x0'.
     ebind (cast_int64s x1) (\<lambda>x1'.
     ebind (cast_int64s y0) (\<lambda>y0'.
     ebind (cast_int64s y1) (\<lambda>y1'. Inr (x0', x1', y0', y1')))))"

definition neighbour_indices ::
  "string \<Rightarrow> floatX \<Rightarrow> floatX \<Rightarrow> floatX list \<Rightarrow> floatX list
     \<Rightarrow> error + (int list \<times> int list \<times> int list \<times> int list)"
where
  "neighbour_indices border_mode height_f width_f x y =
     (let x0_f = map ffloor x; y0_f = map ffloor y;
          x1_f = map (\<lambda>v. v + Fin 1) x0_f; y1_f = map (\<lambda>v. v + Fin 1) y0_f
      in
      if border_mode = ''nearest'' then
        cast4 (map (\<lambda>v. fclip v (Fin 0) (width_f - Fin 1)) x0_f)
              (map (\<lambda>v. fclip v (Fin 0) (width_f - Fin 1)) x1_f)
              (map (\<lambda>v. fclip v (Fin 0) (height_f - Fin 1)) y0_f)
              (map (\<lambda>v. fclip v (Fin 0) (height_f - Fin 1)) y1_f)
      else if border_mode = ''mirror'' then
        (let w = Fin 2 * (width_f - Fin 1); h = Fin 2 * (height_f - Fin 1) in
         cast4 (map (\<lambda>v. fminimum (fmod v w) (fmod (- v) w)) x0_f)
               (map (\<lambda>v. fminimum (fmod v w) (fmod (- v) w)) x1_f)
               (map (\<lambda>v. fminimum (fmod v h) (fmod (- v) h)) y0_f)
               (map (\<lambda>v. fminimum (fmod v h) (fmod (- v) h)) y1_f))
      else if border_mode = ''wrap'' then
        cast4 (map (\<lambda>v. fmod v width_f) x0_f)
              (map (\<lambda>v. fmod v width_f) x1_f)
              (map (\<lambda>v. fmod v height_f) y0_f)
              (map (\<lambda>v. fmod v height_f) y1_f)
      else Inl ValueError_border_mode)"

text \<open>
  Lines 111 to 120: the positions of the four corners in the flattened
  \<open>[num_batch * height * width, channels]\<close> view of the input.
\<close>

definition gather_indices ::
  "nat \<Rightarrow> nat \<Rightarrow> nat \<Rightarrow> nat \<Rightarrow> nat \<Rightarrow> int list \<Rightarrow> int list \<Rightarrow> int list \<Rightarrow> int list
     \<Rightarrow> error + (int list \<times> int list \<times> int list \<times> int list)"
where
  "gather_indices num_batch height width out_height out_width x0 x1 y0 y1 =
     (let dim2 = int width;
          dim1 = int width * int height;
          base = repeat (map (\<lambda>b. int b * dim1) [0..<num_batch]) (out_height * out_width)
      in ebind (vadd base (map (\<lambda>v. v * dim2) y0)) (\<lambda>base_y0.
         ebind (vadd base (map (\<lambda>v. v * dim2) y1)) (\<lambda>base_y1.
         ebind (vadd base_y0 x0) (\<lambda>idx_a.
         ebind (vadd base_y1 x0) (\<lambda>idx_b.
         ebind (vadd base_y0 x1) (\<lambda>idx_c.
         ebind (vadd base_y1 x1) (\<lambda>idx_d.
         Inr (idx_a, idx_b, idx_c, idx_d))))))))"

text \<open>
  Lines 130 to 133: the interpolation weights, from the floor coordinates as
  they are before the border mode is applied.
\<close>

definition weights ::
  "floatX list \<Rightarrow> floatX list
     \<Rightarrow> floatX list \<times> floatX list \<times> floatX list \<times> floatX list"
where
  "weights x y =
     (let x0_f = map ffloor x; y0_f = map ffloor y;
          x1_f = map (\<lambda>v. v + Fin 1) x0_f; y1_f = map (\<lambda>v. v + Fin 1) y0_f
      in (vmul (vsub x1_f x) (vsub y1_f y),
          vmul (vsub x1_f x) (vsub y y0_f),
          vmul (vsub x x0_f) (vsub y1_f y),
          vmul (vsub x x0_f) (vsub y y0_f)))"

text \<open>
  The function builds a symbolic graph: nothing is computed on the arrays
  while it runs.  What it raises itself (the unpacking of \<^verbatim>\<open>inp.shape\<close>, the
  subscripts of \<^verbatim>\<open>grid.shape\<close>, the unknown border mode) therefore comes before
  every failure of the array operations, which appear when the graph is
  evaluated.  \<open>sampler_eval\<close> is that evaluation, lines 61 to 140 on concrete
  arrays.
\<close>

definition sampler_eval ::
  "floatX tensor \<Rightarrow> floatX tensor \<Rightarrow> string \<Rightarrow> error + floatX tensor"
where
  "sampler_eval inp grid border_mode =
     (let num_batch = shape inp ! 0; num_channels = shape inp ! 1;
          height = shape inp ! 2; width = shape inp ! 3;
          out_height = shape grid ! 2; out_width = shape grid ! 3;
          height_f = cast_floatX (int height); width_f = cast_floatX (int width)
      in
      ebind (dimshuffle [Some 0, Some 2, Some 3, Some 1] inp) (\<lambda>inp_transposed.
      ebind (sampler_xy inp grid) (\<lambda>(x, y).
      ebind (neighbour_indices border_mode height_f width_f x y) (\<lambda>(x0, x1, y0, y1).
      ebind (gather_indices num_batch height width out_height out_width x0 x1 y0 y1)
        (\<lambda>(idx_a, idx_b, idx_c, idx_d).
      ebind (reshape inp_transposed [- 1, int num_channels]) (\<lambda>inp_flat.
      ebind (take_rows inp_flat idx_a) (\<lambda>I_a.
      ebind (take_rows inp_flat idx_b) (\<lambda>I_b.
      ebind (take_rows inp_flat idx_c) (\<lambda>I_c.
      ebind (take_rows inp_flat idx_d) (\<lambda>I_d.
      (case weights x y of (wa, wb, wc, wd) \<Rightarrow>
      ebind (mul_rows wa I_a) (\<lambda>ta.
      ebind (mul_rows wb I_b) (\<lambda>tb.
      ebind (mul_rows wc I_c) (\<lambda>tc.
      ebind (mul_rows wd I_d) (\<lambda>td.
      ebind (sum4 ta tb tc td) (\<lambda>transformed_inputs_flat.
      ebind (reshape transformed_inputs_flat
               [int num_batch, int out_height, int out_width, int num_channels])
        (\<lambda>transformed_inputs.
      dimshuffle [Some 0, Some 3, Some 1, Some 2] transformed_inputs)))))))))))))))))"

definition transformer_sampler_impl ::
  "floatX tensor \<Rightarrow> floatX tensor \<Rightarrow> string \<Rightarrow> error + floatX tensor"
where
  "transformer_sampler_impl inp grid border_mode =
     (if length (shape inp) \<noteq> 4 then Inl ValueError_unpack
      else if length (shape grid) < 4 then Inl IndexError
      else if border_mode \<noteq> ''nearest'' \<and> border_mode \<noteq> ''mirror'' \<and> border_mode \<noteq> ''wrap''
      then Inl ValueError_border_mode
      else sampler_eval inp grid border_mode)"

section \<open>The entry point\<close>

text \<open>
  \<^verbatim>\<open>spatialtf\<close>, lines 12 to 26.  The two operators it applies are declared in
  \<^verbatim>\<open>abstract_spatialtf\<close>, which is not part of the sources read here; they stand
  for \<open>transformer_grid_impl\<close> and \<open>transformer_sampler_impl\<close>.  The sampler
  operator is constructed with no argument, \<^verbatim>\<open>AbstractTransformerSampler()\<close>, so
  the border mode it carries is the default of its constructor, whatever that
  is: the parameter \<open>op_border_mode\<close>.
\<close>

definition spatialtf ::
  "string \<Rightarrow> floatX tensor \<Rightarrow> floatX tensor \<Rightarrow> real \<Rightarrow> real \<Rightarrow> string \<Rightarrow> error + floatX tensor"
where
  "spatialtf op_border_mode inp theta scale_height scale_width border_mode =
     (if length (shape inp) \<noteq> 4 then Inl AssertionError
      else if length (shape theta) \<noteq> 3 then Inl AssertionError
      else
        let num_batch = shape inp ! 0; num_channels = shape inp ! 1;
            height = shape inp ! 2; width = shape inp ! 3;
            out_height = trunc (scale_height * real height);
            out_width = trunc (scale_width * real width);
            out_dims = (int num_batch, int num_channels, out_height, out_width)
        in ebind (transformer_grid_impl theta out_dims) (\<lambda>grid.
           transformer_sampler_impl inp grid op_border_mode))"

section \<open>The gradient of the grid generator\<close>

text \<open>
  Modelled from the spec: \<^verbatim>\<open>theano.tensor.grad\<close>, which both gradient functions
  call, is not part of the sources read here.  The spec describes the gradients
  as the analytic derivatives, the ones a finite-difference check confirms, so
  \<^verbatim>\<open>grad(None, wrt, known_grads={out: g})\<close> is modelled by what it denotes: the
  tensor of the shape of \<^verbatim>\<open>wrt\<close> whose entry \<open>j\<close> is the sum over the entries \<open>l\<close>
  of \<^verbatim>\<open>out\<close> of \<open>g ! l\<close> times the partial derivative of entry \<open>l\<close> of \<^verbatim>\<open>out\<close>
  with respect to entry \<open>j\<close> of \<^verbatim>\<open>wrt\<close>.  \<open>partial_derivative f v j l d\<close> says that
  this partial derivative of the list function \<open>f\<close> at \<open>v\<close> is \<open>d\<close>;
  \<open>tensor_fun f s\<close> reads a function on tensors of shape \<open>s\<close> as a function on the
  lists of their finite entries; \<open>grad f wrt g r\<close> says that \<open>r\<close> is the value of
  \<^verbatim>\<open>grad\<close> where \<open>f\<close> is the graph that leads from \<^verbatim>\<open>wrt\<close> to \<^verbatim>\<open>out\<close>.  It is a
  relation, since a derivative is not computed by evaluation.
\<close>

definition partial_derivative ::
  "(real list \<Rightarrow> real list) \<Rightarrow> real list \<Rightarrow> nat \<Rightarrow> nat \<Rightarrow> real \<Rightarrow> bool" where
  "partial_derivative f v j l d = DERIV (\<lambda>t. f (v[j := t]) ! l) (v ! j) :> d"

definition is_vjp ::
  "(real list \<Rightarrow> real list) \<Rightarrow> real list \<Rightarrow> real list \<Rightarrow> real list \<Rightarrow> bool" where
  "is_vjp f v g r = (length r = length v \<and> length (f v) = length g \<and>
     (\<forall>j<length v. \<exists>D. (\<forall>l<length g. partial_derivative f v j l (D l))
        \<and> r ! j = (\<Sum>l<length g. g ! l * D l)))"

definition tensor_fun ::
  "(floatX tensor \<Rightarrow> error + floatX tensor) \<Rightarrow> nat list \<Rightarrow> real list \<Rightarrow> real list" where
  "tensor_fun f s v =
     (case f \<lparr>shape = s, data = map Fin v\<rparr> of
        Inl e \<Rightarrow> []
      | Inr t \<Rightarrow> map the_fin (data t))"

definition grad ::
  "(floatX tensor \<Rightarrow> error + floatX tensor) \<Rightarrow> floatX tensor \<Rightarrow> floatX tensor
     \<Rightarrow> floatX tensor \<Rightarrow> bool" where
  "grad f wrt g r =
     ((\<exists>out. f wrt = Inr out \<and> shape out = shape g)
      \<and> shape r = shape wrt \<and> list_all is_fin (data r)
      \<and> is_vjp (tensor_fun f (shape wrt)) (map the_fin (data wrt)) (map the_fin (data g))
           (map the_fin (data r)))"

text \<open>\<^verbatim>\<open>transformer_gradt_impl\<close>, lines 150 to 155.\<close>

definition transformer_gradt_impl :: "floatX tensor \<Rightarrow> floatX tensor \<Rightarrow> floatX tensor \<Rightarrow> bool" where
  "transformer_gradt_impl theta grad_grid grad_theta =
     (shape theta \<noteq> [] \<and> length (shape grad_grid) = 4 \<and>
      (let num_batch = shape theta ! 0;
           out_height = shape grad_grid ! 2; out_width = shape grad_grid ! 3;
           out_dims = (int num_batch, 1, int out_height, int out_width)
       in grad (\<lambda>theta. transformer_grid_impl theta out_dims) theta grad_grid grad_theta))"

text \<open>
  The gradient as the spec words it (GridGradient): the mesh is built again for
  the output shape of the grid by \<open>meshgrid\<close>, and the result is, for each batch
  entry, the \<open>2 \<times> P\<close> block of \<^verbatim>\<open>gradGrid\<close> times the transpose of the \<open>3 \<times> P\<close>
  mesh, with \<open>P\<close> the number of grid locations.  The values of \<^verbatim>\<open>theta\<close> are not
  read, only its first dimension.
\<close>

definition gridBackward :: "floatX tensor \<Rightarrow> floatX tensor \<Rightarrow> error + floatX tensor" where
  "gridBackward theta grad_grid =
     (if shape theta = [] then Inl IndexError
      else if length (shape grad_grid) \<noteq> 4 then Inl ValueError_unpack
      else
        let num_batch = shape theta ! 0;
            out_height = shape grad_grid ! 2; out_width = shape grad_grid ! 3
        in ebind (meshgrid (int out_height) (int out_width)) (\<lambda>mesh.
           ebind (reshape grad_grid [2, int num_batch, int (out_height * out_width)]) (\<lambda>g.
           ebind (dimshuffle [Some 1, Some 0, Some 2] g) (\<lambda>grad_grid_b.
           ebind (dimshuffle [Some 1, Some 0] mesh) (\<lambda>mesh_t.
           dot grad_grid_b mesh_t)))))"

section \<open>The gradient of the sampler\<close>




section \<open>Vocabulary of the proofs\<close>

text \<open>
  Closed forms of intermediate values, used to state the lemmas below; each is
  proved equal to what the code computes.  \<open>lin n j\<close> is sample \<open>j\<close> of
  \<^verbatim>\<open>_linspace(-1, 1, n)\<close>; \<open>mesh_x\<close> and \<open>mesh_y\<close> are the first two rows of the
  mesh at position \<open>p\<close>; \<open>grid_value\<close> is row \<open>r\<close> of \<^verbatim>\<open>theta\<close> applied to column
  \<open>p\<close> of the mesh; \<open>grid_graph\<close> is \<open>transformer_grid_impl\<close> up to its last
  reshape.
\<close>

definition lin :: "nat \<Rightarrow> nat \<Rightarrow> floatX" where
  "lin n j = Fin (real j) * (Fin 2 / (Fin (real n) - Fin 1)) + Fin (- 1)"

definition mesh_x :: "nat \<Rightarrow> nat \<Rightarrow> floatX" where
  "mesh_x w p = Fin 0 + Fin 1 * lin w (p mod w)"

definition mesh_y :: "nat \<Rightarrow> nat \<Rightarrow> nat \<Rightarrow> floatX" where
  "mesh_y h w p = Fin 0 + lin h (p div w) * Fin 1"

definition grid_value :: "floatX list \<Rightarrow> nat \<Rightarrow> nat \<Rightarrow> nat \<Rightarrow> nat \<Rightarrow> floatX" where
  "grid_value th oh ow r p =
     Fin 0 + th ! (r * 3) * mesh_x ow p + th ! (r * 3 + 1) * mesh_y oh ow p
       + th ! (r * 3 + 2) * Fin 1"

definition grid_graph :: "floatX tensor \<Rightarrow> int \<Rightarrow> int \<Rightarrow> error + floatX tensor" where
  "grid_graph theta oh ow = ebind (meshgrid oh ow) (\<lambda>grid. ebind (dot theta grid) (\<lambda>tg.
        dimshuffle [Some 1, Some 0, Some 2] tg))"

text \<open>
  The integer a border mode makes of the floor coordinate \<open>v\<close> for a dimension
  of \<open>d\<close> pixels (lines 86 to 102, read on integers), and the value of the output at image \<open>b\<close>, channel \<open>c\<close>
  and grid location \<open>l\<close> as a sum over the four corners (lines 124 to 134).
\<close>

definition border_int :: "string \<Rightarrow> nat \<Rightarrow> int \<Rightarrow> int" where
  "border_int bm d v =
     (if bm = ''nearest'' then max 0 (min (int d - 1) v)
      else if bm = ''mirror'' then min (v mod (2 * (int d - 1))) ((- v) mod (2 * (int d - 1)))
      else v mod int d)"

definition bilinear :: "string \<Rightarrow> floatX tensor \<Rightarrow> real list \<Rightarrow> nat \<Rightarrow> nat \<Rightarrow> nat \<Rightarrow> floatX" where
  "bilinear bm inp gs b c l =
     (let H = shape inp ! 2; W = shape inp ! 3;
          x = (gs ! l + 1) / 2 * (real W - 1);
          y = (gs ! (length gs div 2 + l) + 1) / 2 * (real H - 1);
          x0 = border_int bm W \<lfloor>x\<rfloor>; x1 = border_int bm W (\<lfloor>x\<rfloor> + 1);
          y0 = border_int bm H \<lfloor>y\<rfloor>; y1 = border_int bm H (\<lfloor>y\<rfloor> + 1);
          px = (\<lambda>yy xx. data inp ! ravel (shape inp) [b, c, nat yy, nat xx])
      in Fin ((of_int \<lfloor>x\<rfloor> + 1 - x) * (of_int \<lfloor>y\<rfloor> + 1 - y)) * px y0 x0
       + Fin ((of_int \<lfloor>x\<rfloor> + 1 - x) * (y - of_int \<lfloor>y\<rfloor>)) * px y1 x0
       + Fin ((x - of_int \<lfloor>x\<rfloor>) * (of_int \<lfloor>y\<rfloor> + 1 - y)) * px y0 x1
       + Fin ((x - of_int \<lfloor>x\<rfloor>) * (y - of_int \<lfloor>y\<rfloor>)) * px y1 x1)"

text \<open>
  Entry \<open>p\<close> of row \<open>k\<close> of the mesh as a real number, the grid generator as a
  function of the entries of \<^verbatim>\<open>theta\<close>, and entry \<open>m\<close> of the gradient with respect
  to \<^verbatim>\<open>theta\<close> as a sum over the grid locations.
\<close>

definition mesh_real :: "nat \<Rightarrow> nat \<Rightarrow> nat \<Rightarrow> nat \<Rightarrow> real" where
  "mesh_real oh ow k p =
     (if k = 0 then real (p mod ow) * (2 / (real ow - 1)) - 1
      else if k = 1 then real (p div ow) * (2 / (real oh - 1)) - 1
      else 1)"

definition grid_reals :: "nat \<Rightarrow> nat \<Rightarrow> nat \<Rightarrow> real list \<Rightarrow> real list" where
  "grid_reals N oh ow v =
     (case transformer_grid_impl \<lparr>shape = [N, 2, 3], data = map Fin v\<rparr>
             (int N, 1, int oh, int ow) of
        Inl e \<Rightarrow> []
      | Inr g \<Rightarrow> map the_fin (data g))"

definition grad_theta_real :: "nat \<Rightarrow> nat \<Rightarrow> nat \<Rightarrow> real list \<Rightarrow> nat \<Rightarrow> real" where
  "grad_theta_real N oh ow gg m =
     (\<Sum>p<oh * ow. gg ! ((m div 3) mod 2 * (N * (oh * ow)) + (m div 6) * (oh * ow) + p)
                     * mesh_real oh ow (m mod 3) p)"








section \<open>Example inputs\<close>

text \<open>
  A \<open>1 \<times> 1 \<times> 2 \<times> 2\<close> image, the identity transform for \<open>n\<close> images, a
  transform that shifts the grid by one unit in \<open>x\<close>, and a grid of one
  location.
\<close>

definition ex_inp :: "floatX tensor" where
  "ex_inp = \<lparr>shape = [1, 1, 2, 2], data = [Fin 1, Fin 2, Fin 3, Fin 4]\<rparr>"

definition identity_theta :: "nat \<Rightarrow> floatX tensor" where
  "identity_theta n =
     \<lparr>shape = [n, 2, 3], data = concat (replicate n [Fin 1, Fin 0, Fin 0, Fin 0, Fin 1, Fin 0])\<rparr>"

definition shift_theta :: "floatX tensor" where
  "shift_theta = \<lparr>shape = [1, 2, 3], data = [Fin 1, Fin 0, Fin 1, Fin 0, Fin 1, Fin 0]\<rparr>"

definition ex_grid :: "floatX tensor" where
  "ex_grid = \<lparr>shape = [2, 1, 1, 1], data = [Fin (3 / 2), Fin (- (3 / 10))]\<rparr>"

text \<open>Two \<open>1 \<times> 2 \<times> 2\<close> images in one batch.\<close>

definition ex_inp2 :: "floatX tensor" where
  "ex_inp2 = \<lparr>shape = [2, 1, 2, 2],
              data = [Fin 1, Fin 2, Fin 3, Fin 4, Fin 5, Fin 6, Fin 7, Fin 8]\<rparr>"

text \<open>An upstream gradient for a grid of \<open>2 \<times> 2\<close> locations.\<close>

definition ex_grad_grid :: "floatX tensor" where
  "ex_grad_grid = \<lparr>shape = [2, 1, 2, 2], data = map Fin [1, 2, 3, 4, 5, 6, 7, 8]\<rparr>"



section \<open>Basic facts\<close>

lemma Fin_minus [simp]: "Fin a - Fin b = Fin (a - b)"
  by (simp add: minus_floatX_def)

lemma Fin_less_eq [simp]: "(Fin a \<le> Fin b) = (a \<le> b)"
  by (auto simp: less_eq_floatX_def)

lemma is_fin_conv: "is_fin v = (\<exists>a. v = Fin a)"
  by (cases v) auto

lemma pixel_coords_length [simp]: "length (pixel_coords g d) = length g"
  by (simp add: pixel_coords_def)

lemma pixel_coords_fin:
  assumes "list_all is_fin g" "l < length g"
  shows "is_fin (pixel_coords g (cast_floatX n) ! l)"
proof -
  from assms have "is_fin (g ! l)" by (simp add: list_all_length)
  then obtain a where "g ! l = Fin a" by (auto simp: is_fin_conv)
  with assms(2) show ?thesis by (simp add: pixel_coords_def cast_floatX_def)
qed

lemma subtensor0_fin:
  assumes "subtensor0 t i = Inr s" "list_all is_fin (data t)"
  shows "list_all is_fin (data s)"
proof -
  from assms(1) obtain n m where "data s = take n (drop m (data t))"
    by (auto simp: subtensor0_def split: list.splits if_splits)
  moreover have "set (take n (drop m (data t))) \<subseteq> set (data t)"
    by (meson set_take_subset set_drop_subset subset_trans)
  ultimately show ?thesis using assms(2) by (auto simp: list_all_iff)
qed

lemma sampler_xy_fin:
  assumes "sampler_xy inp grid = Inr (x, y)" "list_all is_fin (data grid)"
  shows "list_all is_fin x \<and> list_all is_fin y"
proof -
  from assms(1) obtain g0 g1 where g: "subtensor0 grid 0 = Inr g0" "subtensor0 grid 1 = Inr g1"
    and x: "x = pixel_coords (data g0) (cast_floatX (int (shape inp ! 3)))"
    and y: "y = pixel_coords (data g1) (cast_floatX (int (shape inp ! 2)))"
    by (auto simp: sampler_xy_def ebind_def flatten_def Let_def split: sum.splits)
  have "list_all is_fin (data g0)" "list_all is_fin (data g1)"
    using g assms(2) by (auto dest: subtensor0_fin)
  then show ?thesis unfolding x y
    by (simp add: list_all_length pixel_coords_fin)
qed

lemma weights_length:
  "weights x y = (wa, wb, wc, wd) \<Longrightarrow>
   length wa = min (length x) (length y) \<and> length wb = min (length x) (length y) \<and>
   length wc = min (length x) (length y) \<and> length wd = min (length x) (length y)"
  by (auto simp: weights_def vmul_def vsub_def Let_def)

lemma weights_nth:
  assumes "weights x y = (wa, wb, wc, wd)" "l < length x" "l < length y"
    "x ! l = Fin a" "y ! l = Fin b"
  shows "wa ! l = Fin ((of_int \<lfloor>a\<rfloor> + 1 - a) * (of_int \<lfloor>b\<rfloor> + 1 - b))"
    and "wb ! l = Fin ((of_int \<lfloor>a\<rfloor> + 1 - a) * (b - of_int \<lfloor>b\<rfloor>))"
    and "wc ! l = Fin ((a - of_int \<lfloor>a\<rfloor>) * (of_int \<lfloor>b\<rfloor> + 1 - b))"
    and "wd ! l = Fin ((a - of_int \<lfloor>a\<rfloor>) * (b - of_int \<lfloor>b\<rfloor>))"
  using assms by (auto simp: weights_def vmul_def vsub_def Let_def)

lemma unit_product:
  fixes u v :: real
  assumes "0 \<le> u" "u \<le> 1" "0 \<le> v" "v \<le> 1"
  shows "0 \<le> u * v \<and> u * v \<le> 1"
  using assms by (simp add: mult_le_one)

section \<open>Index arithmetic\<close>

lemma ravel_less:
  "list_all2 (<) is ds \<Longrightarrow> ravel ds is < prod_list ds"
proof (induction ds "is" rule: ravel.induct)
  case (1 d ds i "is")
  then have i: "i < d" and r: "ravel ds is < prod_list ds" by auto
  have "i * prod_list ds + ravel ds is < i * prod_list ds + prod_list ds"
    using r by simp
  also have "\<dots> = (Suc i) * prod_list ds" by simp
  also have "\<dots> \<le> d * prod_list ds"
    using i by (intro mult_le_mono1) simp
  finally show ?case by simp
qed auto

lemma unravel_ravel:
  "list_all2 (<) is ds \<Longrightarrow> unravel ds (ravel ds is) = is"
proof (induction ds "is" rule: ravel.induct)
  case (1 d ds i "is")
  then have r: "ravel ds is < prod_list ds" by (auto intro: ravel_less)
  with 1 show ?case by auto
qed auto

lemma ravel_unravel:
  "k < prod_list ds \<Longrightarrow> ravel ds (unravel ds k) = k"
proof (induction ds arbitrary: k)
  case (Cons d ds)
  have "0 < prod_list ds" using Cons.prems by (cases "prod_list ds = 0") auto
  then have "k mod prod_list ds < prod_list ds" by simp
  from Cons.IH [OF this] show ?case by simp
qed simp

lemma unravel_bounds:
  "k < prod_list ds \<Longrightarrow> list_all2 (<) (unravel ds k) ds"
proof (induction ds arbitrary: k)
  case (Cons d ds)
  have p: "0 < prod_list ds" using Cons.prems by (cases "prod_list ds = 0") auto
  then have "k mod prod_list ds < prod_list ds" by simp
  from Cons.IH [OF this] have "list_all2 (<) (unravel ds (k mod prod_list ds)) ds" .
  moreover have "k div prod_list ds < d"
    using Cons.prems p by (simp add: less_mult_imp_div_less mult.commute)
  ultimately show ?case by simp
qed simp

lemma length_unravel [simp]: "length (unravel ds k) = length ds"
  by (induction ds arbitrary: k) auto

lemma ravel_snoc:
  "length is = length ds \<Longrightarrow> ravel (ds @ [c]) (is @ [i]) = ravel ds is * c + i"
  by (induction ds "is" rule: ravel.induct) (auto simp: algebra_simps)

lemma div_mult_add [simp]: "p < P \<Longrightarrow> (r * P + p) div P = (r::nat)"
  by simp

lemma mod_mult_add [simp]: "p < P \<Longrightarrow> (r * P + p) mod P = (p::nat)"
  by simp

lemma upt_0_4: "[0..<4] = [0, 1, 2, 3]" and upt_0_3: "[0..<3] = [0, 1, 2]"
  and upt_0_2: "[0..<2] = [0, 1]" and upt_0_1: "[0..<1] = [0]"
  by (simp_all add: upt_rec)

lemma dimshuffle_0231:
  assumes "shape t = [N, C, H, W]"
  shows "dimshuffle [Some 0, Some 2, Some 3, Some 1] t =
    Inr \<lparr>shape = [N, H, W, C],
         data = map (\<lambda>k. data t ! ravel [N, C, H, W]
                     [unravel [N, H, W, C] k ! 0, unravel [N, H, W, C] k ! 3,
                      unravel [N, H, W, C] k ! 1, unravel [N, H, W, C] k ! 2])
                  [0..<N * H * W * C]\<rparr>"
  using assms by (simp add: dimshuffle_def upt_0_4 Let_def mult.assoc numeral_2_eq_2 numeral_3_eq_3 del: ravel.simps unravel.simps)

lemma dimshuffle_0312:
  assumes "shape t = [N, H, W, C]"
  shows "dimshuffle [Some 0, Some 3, Some 1, Some 2] t =
    Inr \<lparr>shape = [N, C, H, W],
         data = map (\<lambda>k. data t ! ravel [N, H, W, C]
                     [unravel [N, C, H, W] k ! 0, unravel [N, C, H, W] k ! 2,
                      unravel [N, C, H, W] k ! 3, unravel [N, C, H, W] k ! 1])
                  [0..<N * C * H * W]\<rparr>"
  using assms by (simp add: dimshuffle_def upt_0_4 Let_def mult.assoc numeral_2_eq_2 numeral_3_eq_3 del: ravel.simps unravel.simps)

lemma dimshuffle_102:
  assumes "shape t = [M, K, P]"
  shows "dimshuffle [Some 1, Some 0, Some 2] t =
    Inr \<lparr>shape = [K, M, P],
         data = map (\<lambda>k. data t ! ravel [M, K, P]
                     [unravel [K, M, P] k ! 1, unravel [K, M, P] k ! 0, unravel [K, M, P] k ! 2])
                  [0..<K * M * P]\<rparr>"
  using assms by (simp add: dimshuffle_def upt_0_3 Let_def mult.assoc numeral_2_eq_2 numeral_3_eq_3 del: ravel.simps unravel.simps)

lemma dimshuffle_x0:
  assumes "shape t = [n]" "length (data t) = n"
  shows "dimshuffle [None, Some 0] t = Inr \<lparr>shape = [1, n], data = data t\<rparr>"
  using assms by (auto simp: dimshuffle_def upt_0_1 Let_def intro!: nth_equalityI)

lemma dimshuffle_0x:
  assumes "shape t = [n]" "length (data t) = n"
  shows "dimshuffle [Some 0, None] t = Inr \<lparr>shape = [n, 1], data = data t\<rparr>"
  using assms by (auto simp: dimshuffle_def upt_0_1 Let_def intro!: nth_equalityI)

lemma dimshuffle_0231_nth:
  assumes "shape t = [N, C, H, W]"
  shows "\<exists>t'. dimshuffle [Some 0, Some 2, Some 3, Some 1] t = Inr t'
    \<and> shape t' = [N, H, W, C] \<and> length (data t') = N * H * W * C
    \<and> (\<forall>b y x c. b < N \<longrightarrow> y < H \<longrightarrow> x < W \<longrightarrow> c < C \<longrightarrow>
          data t' ! ravel [N, H, W, C] [b, y, x, c] = data t ! ravel [N, C, H, W] [b, c, y, x])"
proof -
  let ?t' = "\<lparr>shape = [N, H, W, C],
         data = map (\<lambda>k. data t ! ravel [N, C, H, W]
                     [unravel [N, H, W, C] k ! 0, unravel [N, H, W, C] k ! 3,
                      unravel [N, H, W, C] k ! 1, unravel [N, H, W, C] k ! 2])
                  [0..<N * H * W * C]\<rparr>"
  have "data ?t' ! ravel [N, H, W, C] [b, y, x, c] = data t ! ravel [N, C, H, W] [b, c, y, x]"
    if "b < N" "y < H" "x < W" "c < C" for b y x c
  proof -
    have a: "list_all2 (<) [b, y, x, c] [N, H, W, C]" using that by simp
    from ravel_less [OF a] have "ravel [N, H, W, C] [b, y, x, c] < N * H * W * C"
      by (simp add: mult.assoc)
    then show ?thesis
      by (simp add: unravel_ravel [OF a] del: ravel.simps unravel.simps)
  qed
  then show ?thesis
    using dimshuffle_0231 [OF assms] by (intro exI [of _ ?t']) simp
qed

lemma dimshuffle_0312_nth:
  assumes "shape t = [N, H, W, C]"
  shows "\<exists>t'. dimshuffle [Some 0, Some 3, Some 1, Some 2] t = Inr t'
    \<and> shape t' = [N, C, H, W] \<and> length (data t') = N * C * H * W
    \<and> (\<forall>b y x c. b < N \<longrightarrow> y < H \<longrightarrow> x < W \<longrightarrow> c < C \<longrightarrow>
          data t' ! ravel [N, C, H, W] [b, c, y, x] = data t ! ravel [N, H, W, C] [b, y, x, c])"
proof -
  let ?t' = "\<lparr>shape = [N, C, H, W],
         data = map (\<lambda>k. data t ! ravel [N, H, W, C]
                     [unravel [N, C, H, W] k ! 0, unravel [N, C, H, W] k ! 2,
                      unravel [N, C, H, W] k ! 3, unravel [N, C, H, W] k ! 1])
                  [0..<N * C * H * W]\<rparr>"
  have "data ?t' ! ravel [N, C, H, W] [b, c, y, x] = data t ! ravel [N, H, W, C] [b, y, x, c]"
    if "b < N" "y < H" "x < W" "c < C" for b y x c
  proof -
    have a: "list_all2 (<) [b, c, y, x] [N, C, H, W]" using that by simp
    from ravel_less [OF a] have "ravel [N, C, H, W] [b, c, y, x] < N * C * H * W"
      by (simp add: mult.assoc)
    then show ?thesis
      by (simp add: unravel_ravel [OF a] del: ravel.simps unravel.simps)
  qed
  then show ?thesis
    using dimshuffle_0312 [OF assms] by (intro exI [of _ ?t']) simp
qed

lemma dimshuffle_102_nth:
  assumes "shape t = [M, K, P]"
  shows "\<exists>t'. dimshuffle [Some 1, Some 0, Some 2] t = Inr t'
    \<and> shape t' = [K, M, P] \<and> length (data t') = K * M * P
    \<and> (\<forall>i b p. i < K \<longrightarrow> b < M \<longrightarrow> p < P \<longrightarrow>
          data t' ! ravel [K, M, P] [i, b, p] = data t ! ravel [M, K, P] [b, i, p])"
proof -
  let ?t' = "\<lparr>shape = [K, M, P],
         data = map (\<lambda>k. data t ! ravel [M, K, P]
                     [unravel [K, M, P] k ! 1, unravel [K, M, P] k ! 0, unravel [K, M, P] k ! 2])
                  [0..<K * M * P]\<rparr>"
  have "data ?t' ! ravel [K, M, P] [i, b, p] = data t ! ravel [M, K, P] [b, i, p]"
    if "i < K" "b < M" "p < P" for i b p
  proof -
    have a: "list_all2 (<) [i, b, p] [K, M, P]" using that by simp
    from ravel_less [OF a] have "ravel [K, M, P] [i, b, p] < K * M * P"
      by (simp add: mult.assoc)
    then show ?thesis
      by (simp add: unravel_ravel [OF a] del: ravel.simps unravel.simps)
  qed
  then show ?thesis
    using dimshuffle_102 [OF assms] by (intro exI [of _ ?t']) simp
qed

lemma linspace_nat:
  "linspace (Fin (- 1)) (Fin 1) (int n) = \<lparr>shape = [n], data = map (lin n) [0..<n]\<rparr>"
  by (simp add: linspace_def arange_def cast_floatX_def lin_def Let_def)

lemma div_lt_of_lt_mult: "(m::nat) < h * w \<Longrightarrow> m div w < h"
  by (simp add: less_mult_imp_div_less)

lemma mod_lt_of_lt_mult: "(m::nat) < h * w \<Longrightarrow> m mod w < w"
  by (cases "w = 0") auto

lemma meshgrid_nat:
  "meshgrid (int h) (int w) =
     Inr \<lparr>shape = [3, h * w],
          data = map (mesh_x w) [0..<h * w] @ map (mesh_y h w) [0..<h * w]
                 @ replicate (h * w) (Fin 1)\<rparr>"
proof -
  have o1: "ones [int h, 1] = Inr \<lparr>shape = [h, 1], data = replicate h (Fin 1)\<rparr>"
    by (simp add: ones_def)
  have o2: "ones [1, int w] = Inr \<lparr>shape = [1, w], data = replicate w (Fin 1)\<rparr>"
    by (simp add: ones_def)
  have d1: "dimshuffle [None, Some 0] (linspace (Fin (- 1)) (Fin 1) (int w))
      = Inr \<lparr>shape = [1, w], data = map (lin w) [0..<w]\<rparr>"
    by (simp add: linspace_nat dimshuffle_x0)
  have d2: "dimshuffle [Some 0, None] (linspace (Fin (- 1)) (Fin 1) (int h))
      = Inr \<lparr>shape = [h, 1], data = map (lin h) [0..<h]\<rparr>"
    by (simp add: linspace_nat dimshuffle_0x)
  have x: "dot \<lparr>shape = [h, 1], data = replicate h (Fin 1)\<rparr>
               \<lparr>shape = [1, w], data = map (lin w) [0..<w]\<rparr>
      = Inr \<lparr>shape = [h, w], data = map (mesh_x w) [0..<h * w]\<rparr>"
    by (auto simp: dot_def mesh_x_def upt_0_1 div_lt_of_lt_mult mod_lt_of_lt_mult)
  have y: "dot \<lparr>shape = [h, 1], data = map (lin h) [0..<h]\<rparr>
               \<lparr>shape = [1, w], data = replicate w (Fin 1)\<rparr>
      = Inr \<lparr>shape = [h, w], data = map (mesh_y h w) [0..<h * w]\<rparr>"
    by (auto simp: dot_def mesh_y_def upt_0_1 div_lt_of_lt_mult mod_lt_of_lt_mult)
  have r: "reshape \<lparr>shape = [h, w], data = map f [0..<h * w]\<rparr> [1, - 1]
      = Inr \<lparr>shape = [1, h * w], data = map f [0..<h * w]\<rparr>" for f :: "nat \<Rightarrow> floatX"
    by (simp add: reshape_def)
  have "meshgrid (int h) (int w) =
      concatenate0 [\<lparr>shape = [1, h * w], data = map (mesh_x w) [0..<h * w]\<rparr>,
                    \<lparr>shape = [1, h * w], data = map (mesh_y h w) [0..<h * w]\<rparr>,
                    ones_like \<lparr>shape = [1, h * w], data = map (mesh_x w) [0..<h * w]\<rparr>]"
    by (simp only: meshgrid_def ebind_def o1 o2 d1 d2 x y r sum.case)
  then show ?thesis
    by (simp add: concatenate0_def ones_like_def)
qed

lemma reshape_exact:
  "reshape t [2, int N, int oh, int ow] =
     (if length (data t) = 2 * N * oh * ow
      then Inr \<lparr>shape = [2, N, oh, ow], data = data t\<rparr> else Inl ValueError_shape)"
  by (auto simp: reshape_def Let_def)

lemma dot_theta_mesh:
  assumes "shape theta = [M, 2, 3]"
  shows "dot theta \<lparr>shape = [3, P],
          data = map (mesh_x ow) [0..<P] @ map (mesh_y oh ow) [0..<P] @ replicate P (Fin 1)\<rparr>
     = Inr \<lparr>shape = [M, 2, P],
            data = map (\<lambda>m. grid_value (data theta) oh ow (m div P) (m mod P)) [0..<M * 2 * P]\<rparr>"
proof -
  have "foldl (+) (Fin 0)
          (map (\<lambda>l. data theta ! (m div P * 3 + l) *
                 (map (mesh_x ow) [0..<P] @ map (mesh_y oh ow) [0..<P] @ replicate P (Fin 1))
                   ! (l * P + m mod P)) [0..<3])
        = grid_value (data theta) oh ow (m div P) (m mod P)"
    if "m < M * 2 * P" for m
  proof -
    have p: "m mod P < P" using that by (cases "P = 0") auto
    then show ?thesis
      by (simp add: upt_0_3 grid_value_def nth_append)
  qed
  then show ?thesis
    using assms by (simp add: dot_def)
qed

lemma grid_before_reshape:
  assumes "shape theta = [M, 2, 3]"
  shows "\<exists>t. grid_graph theta (int oh) (int ow) = Inr t
    \<and> shape t = [2, M, oh * ow] \<and> length (data t) = 2 * M * (oh * ow)
    \<and> (\<forall>i b p. i < 2 \<longrightarrow> b < M \<longrightarrow> p < oh * ow \<longrightarrow>
           data t ! (i * (M * (oh * ow)) + b * (oh * ow) + p)
             = grid_value (data theta) oh ow (b * 2 + i) p)"
proof -
  let ?P = "oh * ow"
  let ?d = "\<lparr>shape = [M, 2, ?P],
            data = map (\<lambda>m. grid_value (data theta) oh ow (m div ?P) (m mod ?P)) [0..<M * 2 * ?P]\<rparr>"
  have "shape ?d = [M, 2, ?P]" by simp
  from dimshuffle_102_nth [OF this]
  obtain t where t: "dimshuffle [Some 1, Some 0, Some 2] ?d = Inr t"
    "shape t = [2, M, ?P]" "length (data t) = 2 * M * ?P"
    "\<And>i b p. i < 2 \<Longrightarrow> b < M \<Longrightarrow> p < ?P \<Longrightarrow>
        data t ! ravel [2, M, ?P] [i, b, p] = data ?d ! ravel [M, 2, ?P] [b, i, p]"
    by blast
  have e: "grid_graph theta (int oh) (int ow) = Inr t"
    by (simp only: grid_graph_def meshgrid_nat ebind_def sum.case dot_theta_mesh [OF assms] t(1))
  have n: "data t ! (i * (M * ?P) + b * ?P + p) = grid_value (data theta) oh ow (b * 2 + i) p"
    if "i < 2" "b < M" "p < ?P" for i b p
  proof -
    have a: "list_all2 (<) [b, i, p] [M, 2, ?P]" using that by simp
    have "ravel [M, 2, ?P] [b, i, p] < M * 2 * ?P"
      using ravel_less [OF a] by (simp add: mult.assoc)
    moreover have "ravel [M, 2, ?P] [b, i, p] = (b * 2 + i) * ?P + p"
      by (simp add: algebra_simps)
    ultimately have "data ?d ! ravel [M, 2, ?P] [b, i, p]
        = grid_value (data theta) oh ow (b * 2 + i) p"
      using that(3) by (simp del: ravel.simps)
    with t(4) [OF that] show ?thesis by (simp add: add.assoc)
  qed
  from e t(2,3) n show ?thesis by blast
qed

lemma transformer_grid_impl_unfold:
  "transformer_grid_impl theta (int N, c, int oh, int ow) =
     ebind (grid_graph theta (int oh) (int ow)) (\<lambda>t. reshape t [2, int N, int oh, int ow])"
  by (simp add: transformer_grid_impl_def grid_graph_def ebind_def split: sum.splits)

lemma grid_impl_batch_mismatch:
  assumes "shape theta = [M, 2, 3]" "M \<noteq> N" "0 < oh" "0 < ow"
  shows "transformer_grid_impl theta (int N, c, int oh, int ow) = Inl ValueError_shape"
proof -
  obtain t where t: "grid_graph theta (int oh) (int ow) = Inr t"
    "length (data t) = 2 * M * (oh * ow)"
    using grid_before_reshape [OF assms(1)] by blast
  have "2 * M * (oh * ow) \<noteq> 2 * N * oh * ow" using assms by auto
  then show ?thesis
    unfolding transformer_grid_impl_unfold t(1) by (simp add: ebind_def reshape_exact t(2))
qed

lemma grid_impl_nth:
  assumes "shape theta = [N, 2, 3]"
  shows "\<exists>g. transformer_grid_impl theta (int N, c, int oh, int ow) = Inr g
    \<and> shape g = [2, N, oh, ow] \<and> length (data g) = 2 * N * (oh * ow)
    \<and> (\<forall>i b p. i < 2 \<longrightarrow> b < N \<longrightarrow> p < oh * ow \<longrightarrow>
           data g ! (i * (N * (oh * ow)) + b * (oh * ow) + p)
             = grid_value (data theta) oh ow (b * 2 + i) p)"
proof -
  obtain t where t: "grid_graph theta (int oh) (int ow) = Inr t"
    "length (data t) = 2 * N * (oh * ow)"
    "\<forall>i b p. i < 2 \<longrightarrow> b < N \<longrightarrow> p < oh * ow \<longrightarrow>
           data t ! (i * (N * (oh * ow)) + b * (oh * ow) + p)
             = grid_value (data theta) oh ow (b * 2 + i) p"
    using grid_before_reshape [OF assms] by blast
  have "transformer_grid_impl theta (int N, c, int oh, int ow)
      = Inr \<lparr>shape = [2, N, oh, ow], data = data t\<rparr>"
    unfolding transformer_grid_impl_unfold t(1) by (simp add: ebind_def reshape_exact t(2) mult.assoc)
  then show ?thesis
    using t(2,3) by (intro exI [of _ "\<lparr>shape = [2, N, oh, ow], data = data t\<rparr>"]) simp
qed

lemma trunc_of_int [simp]: "trunc (of_int n) = n"
  by (simp add: trunc_def)

lemma fmod_int:
  assumes "m \<noteq> 0"
  shows "fmod (Fin (of_int n)) (Fin (of_int m)) = Fin (of_int (n mod m))"
proof -
  have "\<lfloor>real_of_int n / real_of_int m\<rfloor> = n div m"
    by (simp add: floor_divide_of_int_eq)
  moreover have "n mod m = n - m * (n div m)"
    by (simp add: minus_mult_div_eq_mod)
  ultimately show ?thesis using assms by simp
qed

lemma fminimum_Fin [simp]: "fminimum (Fin a) (Fin b) = Fin (min a b)"
  by (simp add: fminimum_def min_def)

lemma fclip_int:
  "0 < d \<Longrightarrow> fclip (Fin (of_int n)) (Fin 0) (Fin (real d) - Fin 1)
     = Fin (of_int (max 0 (min (int d - 1) n)))"
  by (auto simp: fclip_def max_def min_def)

lemma cast_border_nearest:
  assumes "0 < d"
  shows "cast_int64 (fclip (Fin (of_int n)) (Fin 0) (cast_floatX (int d) - Fin 1))
     = Some (border_int ''nearest'' d n)"
  using fclip_int [OF assms, of n] by (simp add: cast_floatX_def border_int_def)

lemma cast_border_mirror:
  assumes "2 \<le> d"
  shows "cast_int64 (fminimum (fmod (Fin (of_int n)) (Fin 2 * (cast_floatX (int d) - Fin 1)))
                              (fmod (- Fin (of_int n)) (Fin 2 * (cast_floatX (int d) - Fin 1))))
     = Some (border_int ''mirror'' d n)"
proof -
  have w: "Fin 2 * (cast_floatX (int d) - Fin 1) = Fin (of_int (2 * (int d - 1)))"
    by (simp add: cast_floatX_def)
  have nz: "2 * (int d - 1) \<noteq> 0" using assms by simp
  have m: "- Fin (of_int n) = Fin (of_int (- n))" by simp
  show ?thesis
    unfolding w m fmod_int [OF nz] by (simp add: border_int_def flip: of_int_min)
qed

lemma cast_border_wrap:
  assumes "0 < d"
  shows "cast_int64 (fmod (Fin (of_int n)) (cast_floatX (int d))) = Some (border_int ''wrap'' d n)"
proof -
  have nz: "int d \<noteq> 0" using assms by simp
  have "cast_floatX (int d) = Fin (of_int (int d))" by (simp add: cast_floatX_def)
  then show ?thesis using fmod_int [OF nz, of n] by (simp add: border_int_def)
qed

lemma border_int_range:
  assumes "2 \<le> d" "bm = ''nearest'' \<or> bm = ''mirror'' \<or> bm = ''wrap''"
  shows "0 \<le> border_int bm d v \<and> border_int bm d v < int d"
proof -
  let ?w = "2 * (int d - 1)"
  have w: "0 < ?w" using assms(1) by simp
  have mirror: "0 \<le> min (v mod ?w) ((- v) mod ?w) \<and> min (v mod ?w) ((- v) mod ?w) < int d"
  proof (cases "v mod ?w = 0")
    case True
    then show ?thesis using assms(1) by simp
  next
    case False
    have "(- v) mod ?w = ?w - v mod ?w"
      using False by (simp add: zmod_zminus1_eq_if)
    moreover have "0 \<le> v mod ?w" "v mod ?w < ?w" using w by simp_all
    ultimately show ?thesis by (auto simp: min_def)
  qed
  have wrap: "0 \<le> v mod int d \<and> v mod int d < int d" using assms(1) by simp
  show ?thesis
    using assms mirror wrap by (auto simp: border_int_def)
qed

lemma those_map_Some [simp]: "those (map (\<lambda>a. Some (f a)) xs) = Some (map f xs)"
  by (induction xs) auto

lemma cast_int64s_ints:
  assumes "\<And>a. cast_int64 (g a) = Some (f a)"
  shows "cast_int64s (map g xs) = Inr (map f xs)"
proof -
  have "those (map cast_int64 (map g xs)) = Some (map f xs)"
    by (induction xs) (simp_all add: assms)
  then show ?thesis by (simp add: cast_int64s_def)
qed

lemma neighbour_indices_ints:
  assumes d: "2 \<le> H" "2 \<le> W"
    and bm: "bm = ''nearest'' \<or> bm = ''mirror'' \<or> bm = ''wrap''"
  shows "neighbour_indices bm (cast_floatX (int H)) (cast_floatX (int W)) (map Fin xs) (map Fin ys)
    = Inr (map (\<lambda>a. border_int bm W \<lfloor>a\<rfloor>) xs, map (\<lambda>a. border_int bm W (\<lfloor>a\<rfloor> + 1)) xs,
           map (\<lambda>a. border_int bm H \<lfloor>a\<rfloor>) ys, map (\<lambda>a. border_int bm H (\<lfloor>a\<rfloor> + 1)) ys)"
proof -
  have p: "0 < H" "0 < W" using d by simp_all
  have s: "Fin (real_of_int n) + Fin 1 = Fin (of_int (n + 1))" for n by simp
  from bm show ?thesis
  proof (elim disjE)
    assume "bm = ''nearest''"
    then show ?thesis
      by (simp add: neighbour_indices_def cast4_def ebind_def comp_def s
          cast_int64s_ints [OF cast_border_nearest [OF p(1)]]
          cast_int64s_ints [OF cast_border_nearest [OF p(2)]] del: plus_floatX.simps of_int_add)
  next
    assume "bm = ''mirror''"
    then show ?thesis
      by (simp add: neighbour_indices_def cast4_def ebind_def comp_def s Let_def
          cast_int64s_ints [OF cast_border_mirror [OF d(1)]]
          cast_int64s_ints [OF cast_border_mirror [OF d(2)]] del: plus_floatX.simps of_int_add uminus_floatX.simps)
  next
    assume "bm = ''wrap''"
    then show ?thesis
      by (simp add: neighbour_indices_def cast4_def ebind_def comp_def s
          cast_int64s_ints [OF cast_border_wrap [OF p(1)]]
          cast_int64s_ints [OF cast_border_wrap [OF p(2)]] del: plus_floatX.simps of_int_add)
  qed
qed

lemma repeat_length [simp]: "length (repeat v r) = length v * r"
  by (induction v) (simp_all add: repeat_def)

lemma repeat_nth:
  "l < length v * r \<Longrightarrow> repeat v r ! l = v ! (l div r)"
proof (induction v arbitrary: l)
  case Nil
  then show ?case by simp
next
  case (Cons a v)
  have r: "0 < r" using Cons.prems by (cases r) auto
  have c: "repeat (a # v) r = replicate r a @ repeat v r" by (simp add: repeat_def)
  show ?case
  proof (cases "l < r")
    case True
    then show ?thesis by (simp add: c nth_append)
  next
    case False
    then have l: "l - r < length v * r" using Cons.prems by auto
    have "l div r = Suc ((l - r) div r)"
      using False r by (simp add: le_div_geq)
    with Cons.IH [OF l] False show ?thesis by (simp add: c nth_append)
  qed
qed

lemma sampler_xy_Fin:
  assumes "shape grid = [2, N, oh, ow]" "data grid = map Fin gs"
    "length gs = 2 * (N * (oh * ow))"
  shows "sampler_xy inp grid =
    Inr (map (\<lambda>l. Fin ((gs ! l + 1) / 2 * (real (shape inp ! 3) - 1))) [0..<N * (oh * ow)],
         map (\<lambda>l. Fin ((gs ! (N * (oh * ow) + l) + 1) / 2 * (real (shape inp ! 2) - 1)))
             [0..<N * (oh * ow)])"
proof -
  let ?L = "N * (oh * ow)"
  have s0: "subtensor0 grid 0 = Inr \<lparr>shape = [N, oh, ow], data = take ?L (map Fin gs)\<rparr>"
    using assms by (simp add: subtensor0_def)
  have s1: "subtensor0 grid (Suc 0) = Inr \<lparr>shape = [N, oh, ow], data = take ?L (drop ?L (map Fin gs))\<rparr>"
    using assms by (simp add: subtensor0_def)
  have x: "pixel_coords (take ?L (map Fin gs)) (cast_floatX (int w))
      = map (\<lambda>l. Fin ((gs ! l + 1) / 2 * (real w - 1))) [0..<?L]" for w
    using assms(3) by (auto simp: pixel_coords_def cast_floatX_def intro!: nth_equalityI)
  have y: "pixel_coords (take ?L (drop ?L (map Fin gs))) (cast_floatX (int h))
      = map (\<lambda>l. Fin ((gs ! (?L + l) + 1) / 2 * (real h - 1))) [0..<?L]" for h
    using assms(3) by (auto simp: pixel_coords_def cast_floatX_def intro!: nth_equalityI)
  show ?thesis
    by (simp add: sampler_xy_def s0 s1 ebind_def flatten_def x y Let_def)
qed

lemma gather_indices_nth:
  assumes "length x0 = N * P" "length x1 = N * P" "length y0 = N * P" "length y1 = N * P"
    "P = oh * ow"
  shows "gather_indices N H W oh ow x0 x1 y0 y1 =
    Inr (map (\<lambda>l. int (l div P) * (int W * int H) + y0 ! l * int W + x0 ! l) [0..<N * P],
         map (\<lambda>l. int (l div P) * (int W * int H) + y1 ! l * int W + x0 ! l) [0..<N * P],
         map (\<lambda>l. int (l div P) * (int W * int H) + y0 ! l * int W + x1 ! l) [0..<N * P],
         map (\<lambda>l. int (l div P) * (int W * int H) + y1 ! l * int W + x1 ! l) [0..<N * P])"
proof -
  let ?base = "repeat (map (\<lambda>b. int b * (int W * int H)) [0..<N]) (oh * ow)"
  have lb: "length ?base = N * P" using assms(5) by simp
  have b: "?base ! l = int (l div P) * (int W * int H)" if "l < N * P" for l
    using that assms(5) by (simp add: repeat_nth less_mult_imp_div_less)
  have v: "vadd ?base (map (\<lambda>v. v * int W) y) =
      Inr (map (\<lambda>l. int (l div P) * (int W * int H) + y ! l * int W) [0..<N * P])"
    if "length y = N * P" for y
    using that lb b by (auto simp: vadd_def intro!: nth_equalityI)
  have v2: "vadd (map (\<lambda>l. int (l div P) * (int W * int H) + y ! l * int W) [0..<N * P]) x =
      Inr (map (\<lambda>l. int (l div P) * (int W * int H) + y ! l * int W + x ! l) [0..<N * P])"
    if "length x = N * P" for x y
    using that by (auto simp: vadd_def intro!: nth_equalityI)
  show ?thesis
    by (simp add: gather_indices_def Let_def ebind_def v v2 assms(1-4))
qed

lemma reshape_rows:
  assumes "0 < C" "length (data t) = R * C"
  shows "reshape t [- 1, int C] = Inr \<lparr>shape = [R, C], data = data t\<rparr>"
  using assms by (simp add: reshape_def)

lemma reshape_nhwc:
  assumes "length (data t) = N * (oh * ow) * C"
  shows "reshape t [int N, int oh, int ow, int C] = Inr \<lparr>shape = [N, oh, ow, C], data = data t\<rparr>"
  using assms by (auto simp: reshape_def Let_def)

lemma take_rows_nth:
  assumes "shape t = [R, C]" "\<And>l. l < length idx \<Longrightarrow> 0 \<le> idx ! l \<and> idx ! l < int R"
  shows "take_rows t idx =
    Inr \<lparr>shape = [length idx, C],
         data = map (\<lambda>m. data t ! (nat (idx ! (m div C)) * C + m mod C)) [0..<length idx * C]\<rparr>"
proof -
  have "\<not> list_ex (\<lambda>i. i < - int R \<or> int R \<le> i) idx"
  proof
    assume "list_ex (\<lambda>i. i < - int R \<or> int R \<le> i) idx"
    then obtain l where l: "l < length idx" "idx ! l < - int R \<or> int R \<le> idx ! l"
      by (auto simp: list_ex_iff in_set_conv_nth)
    from assms(2) [OF l(1)] l(2) show False by linarith
  qed
  moreover have "idx ! (m div C) mod int R = idx ! (m div C)" if "m < length idx * C" for m
  proof -
    have "m div C < length idx" using that by (simp add: less_mult_imp_div_less)
    from assms(2) [OF this] show ?thesis by simp
  qed
  ultimately show ?thesis using assms(1) by (simp add: take_rows_def)
qed

lemma mul_rows_nth:
  assumes "shape t = [L, C]" "length w = L"
  shows "mul_rows w t = Inr \<lparr>shape = [L, C], data = map (\<lambda>m. w ! (m div C) * data t ! m) [0..<L * C]\<rparr>"
  using assms by (simp add: mul_rows_def)

lemma sum4_nth:
  assumes "shape a = [L, C]" "shape b = [L, C]" "shape c = [L, C]" "shape d = [L, C]"
  shows "sum4 a b c d = Inr \<lparr>shape = [L, C],
     data = map (\<lambda>m. data a ! m + data b ! m + data c ! m + data d ! m) [0..<L * C]\<rparr>"
  using assms by (simp add: sum4_def)

lemma weights_Fin:
  assumes "length xs = L" "length ys = L"
  shows "weights (map Fin xs) (map Fin ys) =
    (map (\<lambda>l. Fin ((of_int \<lfloor>xs ! l\<rfloor> + 1 - xs ! l) * (of_int \<lfloor>ys ! l\<rfloor> + 1 - ys ! l))) [0..<L],
     map (\<lambda>l. Fin ((of_int \<lfloor>xs ! l\<rfloor> + 1 - xs ! l) * (ys ! l - of_int \<lfloor>ys ! l\<rfloor>))) [0..<L],
     map (\<lambda>l. Fin ((xs ! l - of_int \<lfloor>xs ! l\<rfloor>) * (of_int \<lfloor>ys ! l\<rfloor> + 1 - ys ! l))) [0..<L],
     map (\<lambda>l. Fin ((xs ! l - of_int \<lfloor>xs ! l\<rfloor>) * (ys ! l - of_int \<lfloor>ys ! l\<rfloor>))) [0..<L])"
  using assms by (auto simp: weights_def vmul_def vsub_def Let_def intro!: nth_equalityI)

lemma ravel3: "ravel [N, H, W] [b, y, x] = (b * H + y) * W + x"
  by (simp add: algebra_simps)

lemma ravel4_last: "ravel [N, H, W, C] [b, y, x, c] = ravel [N, H, W] [b, y, x] * C + c"
  by (simp add: algebra_simps)

lemma ravel3_div:
  assumes "i < oh" "j < ow"
  shows "ravel [N, oh, ow] [b, i, j] div (oh * ow) = b"
    and "ravel [N, oh, ow] [b, i, j] = b * (oh * ow) + (i * ow + j)"
    and "i * ow + j < oh * ow"
proof -
  have "i * ow + j < i * ow + ow" using assms by simp
  also have "\<dots> = Suc i * ow" by simp
  also have "\<dots> \<le> oh * ow" using assms by (intro mult_le_mono1) simp
  finally show p: "i * ow + j < oh * ow" .
  show e: "ravel [N, oh, ow] [b, i, j] = b * (oh * ow) + (i * ow + j)"
    by (simp add: algebra_simps)
  show "ravel [N, oh, ow] [b, i, j] div (oh * ow) = b"
    unfolding e using p by simp
qed

lemma sampler_eval_bilinear:
  assumes inp: "shape inp = [N, C, H, W]" and C: "0 < C" and H: "2 \<le> H" and W: "2 \<le> W"
    and grid: "shape grid = [2, N, oh, ow]" "data grid = map Fin gs"
      "length gs = 2 * (N * (oh * ow))"
    and bm: "bm = ''nearest'' \<or> bm = ''mirror'' \<or> bm = ''wrap''"
  shows "\<exists>out. sampler_eval inp grid bm = Inr out \<and> shape out = [N, C, oh, ow]
     \<and> length (data out) = N * C * oh * ow
     \<and> (\<forall>b c i j. b < N \<longrightarrow> c < C \<longrightarrow> i < oh \<longrightarrow> j < ow \<longrightarrow>
           data out ! ravel [N, C, oh, ow] [b, c, i, j]
             = bilinear bm inp gs b c (ravel [N, oh, ow] [b, i, j]))"
proof -
  define P where "P = oh * ow"
  define L where "L = N * P"
  define xs where "xs = map (\<lambda>l. (gs ! l + 1) / 2 * (real W - 1)) [0..<L]"
  define ys where "ys = map (\<lambda>l. (gs ! (L + l) + 1) / 2 * (real H - 1)) [0..<L]"
  define x0 where "x0 = map (\<lambda>a. border_int bm W \<lfloor>a\<rfloor>) xs"
  define x1 where "x1 = map (\<lambda>a. border_int bm W (\<lfloor>a\<rfloor> + 1)) xs"
  define y0 where "y0 = map (\<lambda>a. border_int bm H \<lfloor>a\<rfloor>) ys"
  define y1 where "y1 = map (\<lambda>a. border_int bm H (\<lfloor>a\<rfloor> + 1)) ys"
  define idx where "idx y x = map (\<lambda>l. int (l div P) * (int W * int H) + y ! l * int W + x ! l) [0..<L]"
    for y x :: "int list"
  have len: "length xs = L" "length ys = L" "length x0 = L" "length x1 = L"
    "length y0 = L" "length y1 = L"
    by (simp_all add: xs_def ys_def x0_def x1_def y0_def y1_def)
  have sh: "shape inp ! 0 = N" "shape inp ! 1 = C" "shape inp ! 2 = H" "shape inp ! 3 = W"
    "shape grid ! 2 = oh" "shape grid ! 3 = ow"
    by (simp_all add: inp grid)
  have xy: "sampler_xy inp grid = Inr (map Fin xs, map Fin ys)"
    using sampler_xy_Fin [OF grid, of inp] by (simp add: sh xs_def ys_def L_def P_def comp_def)
  have ni: "neighbour_indices bm (cast_floatX (int H)) (cast_floatX (int W)) (map Fin xs) (map Fin ys)
      = Inr (x0, x1, y0, y1)"
    unfolding x0_def x1_def y0_def y1_def by (rule neighbour_indices_ints [OF H W bm])
  have gi: "gather_indices N H W oh ow x0 x1 y0 y1 = Inr (idx y0 x0, idx y1 x0, idx y0 x1, idx y1 x1)"
    unfolding idx_def L_def
    by (rule gather_indices_nth) (simp_all add: len [unfolded L_def] P_def)
  from dimshuffle_0231_nth [OF inp] obtain t' where
    t': "dimshuffle [Some 0, Some 2, Some 3, Some 1] inp = Inr t'"
      "length (data t') = N * H * W * C"
      "\<And>b y x c. b < N \<Longrightarrow> y < H \<Longrightarrow> x < W \<Longrightarrow> c < C \<Longrightarrow>
          data t' ! ravel [N, H, W, C] [b, y, x, c] = data inp ! ravel [N, C, H, W] [b, c, y, x]"
    by blast
  define flat where "flat = \<lparr>shape = [N * H * W, C], data = data t'\<rparr>"
  have fl: "reshape t' [- 1, int C] = Inr flat"
    unfolding flat_def by (rule reshape_rows [OF C t'(2)])
  have in_x: "0 \<le> x ! l \<and> x ! l < int W" if "x = x0 \<or> x = x1" "l < L" for x l
    using that border_int_range [OF W bm] by (auto simp: x0_def x1_def len)
  have in_y: "0 \<le> y ! l \<and> y ! l < int H" if "y = y0 \<or> y = y1" "l < L" for y l
    using that border_int_range [OF H bm] by (auto simp: y0_def y1_def len)
  have idx_nat: "idx y x ! l = int (ravel [N, H, W] [l div P, nat (y ! l), nat (x ! l)])"
    if "x = x0 \<or> x = x1" "y = y0 \<or> y = y1" "l < L" for x y l
    using in_x [OF that(1,3)] in_y [OF that(2,3)] that(3)
    by (simp add: idx_def ravel3 algebra_simps)
  have idx_range: "0 \<le> idx y x ! l \<and> idx y x ! l < int (N * H * W)"
    if "x = x0 \<or> x = x1" "y = y0 \<or> y = y1" "l < length (idx y x)" for x y l
  proof -
    have l: "l < L" using that(3) by (simp add: idx_def)
    then have b: "l div P < N" unfolding L_def by (simp add: less_mult_imp_div_less)
    have a: "list_all2 (<) [l div P, nat (y ! l), nat (x ! l)] [N, H, W]"
      using b in_x [OF that(1) l] in_y [OF that(2) l] by (simp add: nat_less_iff)
    from ravel_less [OF a] have "ravel [N, H, W] [l div P, nat (y ! l), nat (x ! l)] < N * H * W"
      by (simp add: mult.assoc del: ravel.simps)
    then show ?thesis
      unfolding idx_nat [OF that(1,2) l] by (simp only: of_nat_less_iff of_nat_0_le_iff simp_thms)
  qed
  define rows where "rows y x = \<lparr>shape = [L, C],
      data = map (\<lambda>m. data t' ! (nat (idx y x ! (m div C)) * C + m mod C)) [0..<L * C]\<rparr>"
    for y x :: "int list"
  have tr: "take_rows flat (idx y x) = Inr (rows y x)"
    if "x = x0 \<or> x = x1" "y = y0 \<or> y = y1" for x y
  proof -
    have "length (idx y x) = L" by (simp add: idx_def)
    with take_rows_nth [of flat "N * H * W" C "idx y x"] idx_range [OF that]
    show ?thesis by (simp add: flat_def rows_def)
  qed
  define wa where "wa = map (\<lambda>l. Fin ((of_int \<lfloor>xs ! l\<rfloor> + 1 - xs ! l) * (of_int \<lfloor>ys ! l\<rfloor> + 1 - ys ! l))) [0..<L]"
  define wb where "wb = map (\<lambda>l. Fin ((of_int \<lfloor>xs ! l\<rfloor> + 1 - xs ! l) * (ys ! l - of_int \<lfloor>ys ! l\<rfloor>))) [0..<L]"
  define wc where "wc = map (\<lambda>l. Fin ((xs ! l - of_int \<lfloor>xs ! l\<rfloor>) * (of_int \<lfloor>ys ! l\<rfloor> + 1 - ys ! l))) [0..<L]"
  define wd where "wd = map (\<lambda>l. Fin ((xs ! l - of_int \<lfloor>xs ! l\<rfloor>) * (ys ! l - of_int \<lfloor>ys ! l\<rfloor>))) [0..<L]"
  have we: "weights (map Fin xs) (map Fin ys) = (wa, wb, wc, wd)"
    unfolding wa_def wb_def wc_def wd_def by (rule weights_Fin [OF len(1,2)])
  define scaled where "scaled w t = \<lparr>shape = [L, C],
      data = map (\<lambda>m. w ! (m div C) * data t ! m) [0..<L * C]\<rparr>"
    for w :: "floatX list" and t :: "floatX tensor"
  have mr: "mul_rows w (rows y x) = Inr (scaled w (rows y x))" if "length w = L" for w y x
    unfolding scaled_def by (rule mul_rows_nth) (simp_all add: rows_def that)
  have wl: "length wa = L" "length wb = L" "length wc = L" "length wd = L"
    by (simp_all add: wa_def wb_def wc_def wd_def)
  define T where "T = \<lparr>shape = [L, C],
      data = map (\<lambda>m. data (scaled wa (rows y0 x0)) ! m + data (scaled wb (rows y1 x0)) ! m
                    + data (scaled wc (rows y0 x1)) ! m + data (scaled wd (rows y1 x1)) ! m)
                 [0..<L * C]\<rparr>"
  have s4: "sum4 (scaled wa (rows y0 x0)) (scaled wb (rows y1 x0)) (scaled wc (rows y0 x1))
      (scaled wd (rows y1 x1)) = Inr T"
    unfolding T_def by (rule sum4_nth) (simp_all add: scaled_def)
  define T' where "T' = \<lparr>shape = [N, oh, ow, C], data = data T\<rparr>"
  have rs: "reshape T [int N, int oh, int ow, int C] = Inr T'"
    unfolding T'_def by (rule reshape_nhwc) (simp add: T_def L_def P_def)
  have "shape T' = [N, oh, ow, C]" by (simp add: T'_def)
  from dimshuffle_0312_nth [OF this] obtain out where
    out: "dimshuffle [Some 0, Some 3, Some 1, Some 2] T' = Inr out"
      "shape out = [N, C, oh, ow]" "length (data out) = N * C * oh * ow"
      "\<And>b y x c. b < N \<Longrightarrow> y < oh \<Longrightarrow> x < ow \<Longrightarrow> c < C \<Longrightarrow>
          data out ! ravel [N, C, oh, ow] [b, c, y, x] = data T' ! ravel [N, oh, ow, C] [b, y, x, c]"
    by blast
  have ev: "sampler_eval inp grid bm = Inr out"
    by (simp only: sampler_eval_def Let_def sh t'(1) xy ni gi fl tr mr wl we s4 rs out(1)
        ebind_def sum.case prod.case simp_thms)
  have val: "data out ! ravel [N, C, oh, ow] [b, c, i, j]
      = bilinear bm inp gs b c (ravel [N, oh, ow] [b, i, j])"
    if b: "b < N" and c: "c < C" and i: "i < oh" and j: "j < ow" for b c i j
  proof -
    define l where "l = ravel [N, oh, ow] [b, i, j]"
    have lb: "l div P = b" and le: "l = b * P + (i * ow + j)" and pp: "i * ow + j < P"
      unfolding l_def P_def using ravel3_div [OF i j] by simp_all
    have l: "l < L"
      unfolding l_def L_def P_def
      using ravel_less [of "[b, i, j]" "[N, oh, ow]"] b i j by (simp del: ravel.simps)
    have m: "ravel [N, oh, ow, C] [b, i, j, c] = l * C + c"
      unfolding l_def by (rule ravel4_last)
    have mL: "l * C + c < L * C"
    proof -
      have "l * C + c < Suc l * C" using c by simp
      also have "\<dots> \<le> L * C" using l by (intro mult_le_mono1) simp
      finally show ?thesis .
    qed
    have px: "data t' ! (nat (idx y x ! l) * C + c)
        = data inp ! ravel (shape inp) [b, c, nat (y ! l), nat (x ! l)]"
      if "x = x0 \<or> x = x1" "y = y0 \<or> y = y1" for x y
    proof -
      have "nat (idx y x ! l) = ravel [N, H, W] [b, nat (y ! l), nat (x ! l)]"
        unfolding idx_nat [OF that l] lb by (simp only: nat_int)
      then have "nat (idx y x ! l) * C + c = ravel [N, H, W, C] [b, nat (y ! l), nat (x ! l), c]"
        by (simp only: ravel4_last)
      moreover have "nat (y ! l) < H" "nat (x ! l) < W"
        using in_x [OF that(1) l] in_y [OF that(2) l] by (simp_all add: nat_less_iff)
      ultimately show ?thesis
        using t'(3) [OF b _ _ c] inp by (simp del: ravel.simps)
    qed
    have sc: "data (scaled w (rows y x)) ! (l * C + c)
        = w ! l * data inp ! ravel (shape inp) [b, c, nat (y ! l), nat (x ! l)]"
      if "x = x0 \<or> x = x1" "y = y0 \<or> y = y1" for w x y
      using mL c px [OF that] by (simp add: scaled_def rows_def)
    have gl: "length gs div 2 = L" by (simp add: grid(3) L_def P_def)
    have "data out ! ravel [N, C, oh, ow] [b, c, i, j] = data T ! (l * C + c)"
      using out(4) [OF b i j c] by (simp add: T'_def m del: ravel.simps)
    also have "\<dots> = wa ! l * data inp ! ravel (shape inp) [b, c, nat (y0 ! l), nat (x0 ! l)]
        + wb ! l * data inp ! ravel (shape inp) [b, c, nat (y1 ! l), nat (x0 ! l)]
        + wc ! l * data inp ! ravel (shape inp) [b, c, nat (y0 ! l), nat (x1 ! l)]
        + wd ! l * data inp ! ravel (shape inp) [b, c, nat (y1 ! l), nat (x1 ! l)]"
      using mL by (simp add: T_def sc del: ravel.simps)
    also have "\<dots> = bilinear bm inp gs b c l"
      using l by (simp add: bilinear_def Let_def sh gl wa_def wb_def wc_def wd_def
          x0_def x1_def y0_def y1_def xs_def ys_def del: ravel.simps)
    finally show ?thesis unfolding l_def .
  qed
  from ev out(2,3) val show ?thesis by blast
qed

lemma concat_replicate_nth:
  assumes "b < n" "k < length xs"
  shows "concat (replicate n xs) ! (b * length xs + k) = xs ! k"
  using assms
proof (induction n arbitrary: b)
  case 0
  then show ?case by simp
next
  case (Suc n)
  show ?case
  proof (cases b)
    case 0
    then show ?thesis using Suc.prems by (simp add: nth_append)
  next
    case (Suc b')
    then have "b' < n" using Suc.prems by simp
    from Suc.IH [OF this Suc.prems(2)] Suc show ?thesis
      by (simp add: nth_append)
  qed
qed

lemma identity_theta_rows:
  assumes "b < N"
  shows "data (identity_theta N) ! ((b * 2 + 0) * 3) = Fin 1"
    "data (identity_theta N) ! ((b * 2 + 0) * 3 + 1) = Fin 0"
    "data (identity_theta N) ! ((b * 2 + 0) * 3 + 2) = Fin 0"
    "data (identity_theta N) ! ((b * 2 + 1) * 3) = Fin 0"
    "data (identity_theta N) ! ((b * 2 + 1) * 3 + 1) = Fin 1"
    "data (identity_theta N) ! ((b * 2 + 1) * 3 + 2) = Fin 0"
proof -
  let ?r = "[Fin 1, Fin 0, Fin 0, Fin 0, Fin 1, Fin 0]"
  have len: "length ?r = 6" by simp
  have n: "concat (replicate N ?r) ! (b * 6 + k) = ?r ! k" if "k < 6" for k
  proof -
    have "k < length ?r" using that by simp
    from concat_replicate_nth [OF assms this] show ?thesis by (simp only: len)
  qed
  have e: "(b * 2 + 0) * 3 = b * 6 + 0" "(b * 2 + 0) * 3 + 1 = b * 6 + 1"
    "(b * 2 + 0) * 3 + 2 = b * 6 + 2" "(b * 2 + 1) * 3 = b * 6 + 3"
    "(b * 2 + 1) * 3 + 1 = b * 6 + 4" "(b * 2 + 1) * 3 + 2 = b * 6 + 5"
    by simp_all
  show "data (identity_theta N) ! ((b * 2 + 0) * 3) = Fin 1"
    "data (identity_theta N) ! ((b * 2 + 0) * 3 + 1) = Fin 0"
    "data (identity_theta N) ! ((b * 2 + 0) * 3 + 2) = Fin 0"
    "data (identity_theta N) ! ((b * 2 + 1) * 3) = Fin 0"
    "data (identity_theta N) ! ((b * 2 + 1) * 3 + 1) = Fin 1"
    "data (identity_theta N) ! ((b * 2 + 1) * 3 + 2) = Fin 0"
    unfolding e identity_theta_def
    using n [of 0] n [of 1] n [of 2] n [of 3] n [of 4] n [of 5] by (simp_all add: add.commute)
qed

lemma lin_Fin:
  assumes "2 \<le> n"
  shows "lin n j = Fin (real j * (2 / (real n - 1)) - 1)"
  using assms by (simp add: lin_def)

lemma identity_grid_value:
  assumes "b < N" "2 \<le> oh" "2 \<le> ow"
  shows "grid_value (data (identity_theta N)) oh ow (b * 2 + 0) p
           = Fin (real (p mod ow) * (2 / (real ow - 1)) - 1)"
    and "grid_value (data (identity_theta N)) oh ow (b * 2 + 1) p
           = Fin (real (p div ow) * (2 / (real oh - 1)) - 1)"
  unfolding grid_value_def identity_theta_rows [OF assms(1)] mesh_x_def mesh_y_def
    lin_Fin [OF assms(2)] lin_Fin [OF assms(3)]
  by simp_all

lemma index3_decompose:
  fixes k N P :: nat
  assumes "k < 2 * (N * P)"
  obtains i b p where "i < 2" "b < N" "p < P" "k = i * (N * P) + b * P + p"
proof -
  have np: "0 < N * P" using assms by (cases "N * P = 0") auto
  then have p: "0 < P" by simp
  let ?r = "k mod (N * P)"
  have r: "?r < N * P" using np by simp
  show ?thesis
  proof (rule that [of "k div (N * P)" "?r div P" "?r mod P"])
    show "k div (N * P) < 2" using assms np by (simp add: less_mult_imp_div_less)
    show "?r div P < N" using r by (simp add: less_mult_imp_div_less)
    show "?r mod P < P" using p by simp
    have "k = k div (N * P) * (N * P) + ?r" by (simp only: div_mult_mod_eq)
    also have "?r = ?r div P * P + ?r mod P" by (simp only: div_mult_mod_eq)
    finally show "k = k div (N * P) * (N * P) + ?r div P * P + ?r mod P"
      by (simp only: add.assoc)
  qed
qed

lemma identity_grid:
  assumes "2 \<le> H" "2 \<le> W"
  shows "\<exists>gs. transformer_grid_impl (identity_theta N) (int N, c, int H, int W)
           = Inr \<lparr>shape = [2, N, H, W], data = map Fin gs\<rparr>
     \<and> length gs = 2 * (N * (H * W))
     \<and> (\<forall>b p. b < N \<longrightarrow> p < H * W \<longrightarrow>
            gs ! (b * (H * W) + p) = real (p mod W) * (2 / (real W - 1)) - 1
          \<and> gs ! (N * (H * W) + (b * (H * W) + p)) = real (p div W) * (2 / (real H - 1)) - 1)"
proof -
  let ?P = "H * W"
  have "shape (identity_theta N) = [N, 2, 3]" by (simp add: identity_theta_def)
  from grid_impl_nth [OF this, of c H W] obtain g where
    g: "transformer_grid_impl (identity_theta N) (int N, c, int H, int W) = Inr g"
      "shape g = [2, N, H, W]" "length (data g) = 2 * N * ?P"
      "\<And>i b p. i < 2 \<Longrightarrow> b < N \<Longrightarrow> p < ?P \<Longrightarrow>
         data g ! (i * (N * ?P) + b * ?P + p)
           = grid_value (data (identity_theta N)) H W (b * 2 + i) p"
    by blast
  have v0: "data g ! (b * ?P + p) = Fin (real (p mod W) * (2 / (real W - 1)) - 1)"
    if "b < N" "p < ?P" for b p
    using g(4) [of 0 b p] that identity_grid_value(1) [OF that(1) assms, of p] by simp
  have v1: "data g ! (N * ?P + (b * ?P + p)) = Fin (real (p div W) * (2 / (real H - 1)) - 1)"
    if "b < N" "p < ?P" for b p
    using g(4) [of 1 b p] that identity_grid_value(2) [OF that(1) assms, of p]
    by (simp add: add.assoc)
  define gs where "gs = map the_fin (data g)"
  have fin: "data g ! k = Fin (gs ! k)" if "k < 2 * (N * ?P)" for k
  proof -
    from that obtain i b p where d: "i < 2" "b < N" "p < ?P" "k = i * (N * ?P) + b * ?P + p"
      by (rule index3_decompose)
    from d(1) have "i = 0 \<or> i = 1" by auto
    then have "is_fin (data g ! k)"
      using v0 [OF d(2,3)] v1 [OF d(2,3)] d(4) by (auto simp: add.assoc)
    then show ?thesis
      using that g(3) by (cases "data g ! k") (simp_all add: gs_def mult.assoc)
  qed
  have dg: "data g = map Fin gs"
    using fin g(3) by (auto simp: gs_def mult.assoc intro!: nth_equalityI)
  have "g = \<lparr>shape = [2, N, H, W], data = map Fin gs\<rparr>"
    using g(2) dg by simp
  moreover have "length gs = 2 * (N * ?P)" using g(3) by (simp add: gs_def mult.assoc)
  moreover have "gs ! (b * ?P + p) = real (p mod W) * (2 / (real W - 1)) - 1
      \<and> gs ! (N * ?P + (b * ?P + p)) = real (p div W) * (2 / (real H - 1)) - 1"
    if "b < N" "p < ?P" for b p
  proof -
    have "b * ?P + p < N * ?P"
    proof -
      have "b * ?P + p < Suc b * ?P" using that(2) by simp
      also have "\<dots> \<le> N * ?P" using that(1) by (intro mult_le_mono1) simp
      finally show ?thesis .
    qed
    then have "b * ?P + p < 2 * (N * ?P)" "N * ?P + (b * ?P + p) < 2 * (N * ?P)" by linarith+
    from fin [OF this(1)] fin [OF this(2)] v0 [OF that] v1 [OF that] show ?thesis by simp
  qed
  ultimately show ?thesis using g(1) by blast
qed

lemma border_nearest_inside:
  assumes "j < W"
  shows "border_int ''nearest'' W (int j) = int j"
  using assms by (simp add: border_int_def)

lemma unscale:
  fixes a d :: real
  assumes "d \<noteq> 0"
  shows "(a * (2 / d) - 1 + 1) / 2 * d = a"
  using assms by simp

lemma identity_bilinear:
  assumes inp: "shape inp = [N, C, H, W]" "data inp = map Fin rs" "length rs = N * C * H * W"
    and d: "2 \<le> H" "2 \<le> W"
    and gs: "length gs = 2 * (N * (H * W))"
      "gs ! (b * (H * W) + (i * W + j)) = real j * (2 / (real W - 1)) - 1"
      "gs ! (N * (H * W) + (b * (H * W) + (i * W + j))) = real i * (2 / (real H - 1)) - 1"
    and b: "b < N" and c: "c < C" and i: "i < H" and j: "j < W"
  shows "bilinear ''nearest'' inp gs b c (b * (H * W) + (i * W + j))
    = data inp ! ravel [N, C, H, W] [b, c, i, j]"
proof -
  have x: "(gs ! (b * (H * W) + (i * W + j)) + 1) / 2 * (real W - 1) = real j"
    unfolding gs(2) using d(2) by (intro unscale) simp
  have y: "(gs ! (length gs div 2 + (b * (H * W) + (i * W + j))) + 1) / 2 * (real H - 1) = real i"
  proof -
    have "length gs div 2 = N * (H * W)" by (simp add: gs(1))
    then show ?thesis unfolding gs(3) using d(1) by (simp only: gs(3)) (intro unscale, simp)
  qed
  have fl: "\<lfloor>real j\<rfloor> = int j" "\<lfloor>real i\<rfloor> = int i" by simp_all
  have sh: "shape inp ! 2 = H" "shape inp ! 3 = W" by (simp_all add: inp(1))
  have px: "\<exists>r. data inp ! ravel (shape inp) [b, c, nat yy, nat xx] = Fin r"
    if "0 \<le> yy \<and> yy < int H" "0 \<le> xx \<and> xx < int W" for yy xx
  proof -
    have a: "list_all2 (<) [b, c, nat yy, nat xx] [N, C, H, W]"
      using that b c by (simp add: nat_less_iff)
    from ravel_less [OF a] have "ravel [N, C, H, W] [b, c, nat yy, nat xx] < length rs"
      by (simp add: inp(3) mult.assoc del: ravel.simps)
    then show ?thesis by (simp add: inp(1,2) del: ravel.simps)
  qed
  have v: "bm = ''nearest'' \<or> bm = ''mirror'' \<or> bm = ''wrap''" if "bm = ''nearest''" for bm
    using that by simp
  note r = border_int_range [OF _ v [OF refl]]
  obtain r00 where r00: "data inp ! ravel (shape inp) [b, c, i, j] = Fin r00"
    using px [of "int i" "int j"] i j by auto
  obtain r10 where r10: "data inp ! ravel (shape inp)
      [b, c, nat (border_int ''nearest'' H (int i + 1)), j] = Fin r10"
    using px [OF r [OF d(1)], of "int j"] j by auto
  obtain r01 where r01: "data inp ! ravel (shape inp)
      [b, c, i, nat (border_int ''nearest'' W (int j + 1))] = Fin r01"
    using px [OF _ r [OF d(2)], of "int i"] i by auto
  obtain r11 where r11: "data inp ! ravel (shape inp)
      [b, c, nat (border_int ''nearest'' H (int i + 1)),
       nat (border_int ''nearest'' W (int j + 1))] = Fin r11"
    using px [OF r [OF d(1)] r [OF d(2)]] by auto
  have "bilinear ''nearest'' inp gs b c (b * (H * W) + (i * W + j))
      = data inp ! ravel (shape inp) [b, c, i, j]"
    unfolding bilinear_def Let_def sh x y fl border_nearest_inside [OF i]
      border_nearest_inside [OF j] nat_int r00 r10 r01 r11
    by simp
  then show ?thesis by (simp only: inp(1))
qed

lemma flat_index_range:
  assumes "b < N" "0 \<le> y \<and> y < int H" "0 \<le> x \<and> x < int W"
  shows "0 \<le> int b * (int W * int H) + y * int W + x
       \<and> int b * (int W * int H) + y * int W + x < int (N * H * W)"
proof -
  have a: "list_all2 (<) [b, nat y, nat x] [N, H, W]"
    using assms by (simp add: nat_less_iff)
  from ravel_less [OF a] have "ravel [N, H, W] [b, nat y, nat x] < N * H * W"
    by (simp add: mult.assoc del: ravel.simps)
  moreover have "int (ravel [N, H, W] [b, nat y, nat x]) = int b * (int W * int H) + y * int W + x"
    using assms by (simp add: ravel3 algebra_simps)
  ultimately show ?thesis
    by (metis of_nat_0_le_iff of_nat_less_iff)
qed

lemma repeat_set: "set (repeat v r) \<subseteq> set v"
  by (induction v) (auto simp: repeat_def)

lemma vadd_Inr:
  assumes "vadd a b = Inr c"
  shows "length a = length b \<and> length c = length a \<and> (\<forall>l < length a. c ! l = a ! l + b ! l)"
  using assms by (auto simp: vadd_def split: if_splits)

lemma ebind_Inr:
  "ebind m f = Inr c \<Longrightarrow> \<exists>v. m = Inr v \<and> f v = Inr c"
  by (cases m) (simp_all add: ebind_def)

lemma gather_indices_Inr:
  assumes "gather_indices N H W oh ow x0 x1 y0 y1 = Inr (idx_a, idx_b, idx_c, idx_d)"
  shows "\<exists>base_y0 base_y1.
       vadd (repeat (map (\<lambda>b. int b * (int W * int H)) [0..<N]) (oh * ow))
            (map (\<lambda>v. v * int W) y0) = Inr base_y0
     \<and> vadd (repeat (map (\<lambda>b. int b * (int W * int H)) [0..<N]) (oh * ow))
            (map (\<lambda>v. v * int W) y1) = Inr base_y1
     \<and> vadd base_y0 x0 = Inr idx_a \<and> vadd base_y1 x0 = Inr idx_b
     \<and> vadd base_y0 x1 = Inr idx_c \<and> vadd base_y1 x1 = Inr idx_d"
proof -
  from assms [unfolded gather_indices_def Let_def]
  obtain base_y0 where 0: "vadd (repeat (map (\<lambda>b. int b * (int W * int H)) [0..<N]) (oh * ow))
            (map (\<lambda>v. v * int W) y0) = Inr base_y0"
    and r0: "ebind (vadd (repeat (map (\<lambda>b. int b * (int W * int H)) [0..<N]) (oh * ow))
            (map (\<lambda>v. v * int W) y1)) (\<lambda>base_y1.
         ebind (vadd base_y0 x0) (\<lambda>idx_a.
         ebind (vadd base_y1 x0) (\<lambda>idx_b.
         ebind (vadd base_y0 x1) (\<lambda>idx_c.
         ebind (vadd base_y1 x1) (\<lambda>idx_d.
         Inr (idx_a, idx_b, idx_c, idx_d)))))) = Inr (idx_a, idx_b, idx_c, idx_d)"
    by (blast dest: ebind_Inr)
  from ebind_Inr [OF r0] obtain base_y1 where 1:
    "vadd (repeat (map (\<lambda>b. int b * (int W * int H)) [0..<N]) (oh * ow))
            (map (\<lambda>v. v * int W) y1) = Inr base_y1"
    and r1: "ebind (vadd base_y0 x0) (\<lambda>idx_a.
         ebind (vadd base_y1 x0) (\<lambda>idx_b.
         ebind (vadd base_y0 x1) (\<lambda>idx_c.
         ebind (vadd base_y1 x1) (\<lambda>idx_d.
         Inr (idx_a, idx_b, idx_c, idx_d))))) = Inr (idx_a, idx_b, idx_c, idx_d)"
    by blast
  from ebind_Inr [OF r1] obtain a where 2: "vadd base_y0 x0 = Inr a"
    and r2: "ebind (vadd base_y1 x0) (\<lambda>idx_b.
         ebind (vadd base_y0 x1) (\<lambda>idx_c.
         ebind (vadd base_y1 x1) (\<lambda>idx_d.
         Inr (a, idx_b, idx_c, idx_d)))) = Inr (idx_a, idx_b, idx_c, idx_d)"
    by blast
  from ebind_Inr [OF r2] obtain b where 3: "vadd base_y1 x0 = Inr b"
    and r3: "ebind (vadd base_y0 x1) (\<lambda>idx_c.
         ebind (vadd base_y1 x1) (\<lambda>idx_d.
         Inr (a, b, idx_c, idx_d))) = Inr (idx_a, idx_b, idx_c, idx_d)"
    by blast
  from ebind_Inr [OF r3] obtain c where 4: "vadd base_y0 x1 = Inr c"
    and r4: "ebind (vadd base_y1 x1) (\<lambda>idx_d. Inr (a, b, c, idx_d))
       = Inr (idx_a, idx_b, idx_c, idx_d)"
    by blast
  from ebind_Inr [OF r4] obtain d where 5: "vadd base_y1 x1 = Inr d"
    and r5: "(a, b, c, d) = (idx_a, idx_b, idx_c, idx_d)"
    by auto
  from 0 1 2 3 4 5 r5 show ?thesis by simp
qed

lemma finite_list_conv:
  assumes "list_all is_fin v"
  shows "v = map Fin (map the_fin v)"
proof (rule nth_equalityI)
  show "length v = length (map Fin (map the_fin v))" by simp
next
  fix i assume "i < length v"
  with assms have "is_fin (v ! i)" by (simp add: list_all_length)
  then show "v ! i = map Fin (map the_fin v) ! i"
    using \<open>i < length v\<close> by (cases "v ! i") simp_all
qed

section \<open>The identity transform\<close>

text \<open>
  The identity transform in exact arithmetic.  For an image of shape
  \<open>(N, C, H, W)\<close> with \<open>H \<ge> 2\<close>, \<open>W \<ge> 2\<close>, at least one channel and finite pixel
  values, the grid generated from the identity transform for the output size
  \<open>(H, W)\<close> (both scales 1), sampled with border mode \<open>nearest\<close>, gives back the
  image itself: the grid lands on the pixel coordinates, the weight of the
  first corner is one and the other three are zero.  This is a fact about the
  formulas and not about the rounded arithmetic of the source, so it does not
  decide C2: in float64 the coordinate of column 1 of a row of 7 pixels,
  computed by lines 35, 36 and 72, is \<open>1 - 2\<^sup>-\<^sup>5\<^sup>2\<close> and not 1, and the output there
  mixes two pixels.  For the image \<open>[[1, 2], [3, 4]]\<close> every operation is exact in
  either arithmetic.
\<close>

theorem identity_transform_reproduces_input:
  assumes inp: "shape inp = [N, C, H, W]" "data inp = map Fin rs" "length rs = N * C * H * W"
    and C: "0 < C" and H: "2 \<le> H" and W: "2 \<le> W"
  shows "ebind (transformer_grid_impl (identity_theta N) (int N, int C, int H, int W))
           (\<lambda>grid. transformer_sampler_impl inp grid ''nearest'') = Inr inp"
proof -
  let ?P = "H * W"
  from identity_grid [OF H W, where N = N and c = "int C"] obtain gs where
    g: "transformer_grid_impl (identity_theta N) (int N, int C, int H, int W)
          = Inr \<lparr>shape = [2, N, H, W], data = map Fin gs\<rparr>"
    and gl: "length gs = 2 * (N * ?P)"
    and gv: "\<And>b p. b < N \<Longrightarrow> p < ?P \<Longrightarrow>
            gs ! (b * ?P + p) = real (p mod W) * (2 / (real W - 1)) - 1
          \<and> gs ! (N * ?P + (b * ?P + p)) = real (p div W) * (2 / (real H - 1)) - 1"
    by blast
  let ?g = "\<lparr>shape = [2, N, H, W], data = map Fin gs\<rparr>"
  have "\<exists>out. sampler_eval inp ?g ''nearest'' = Inr out \<and> shape out = [N, C, H, W]
     \<and> length (data out) = N * C * H * W
     \<and> (\<forall>b c i j. b < N \<longrightarrow> c < C \<longrightarrow> i < H \<longrightarrow> j < W \<longrightarrow>
           data out ! ravel [N, C, H, W] [b, c, i, j]
             = bilinear ''nearest'' inp gs b c (ravel [N, H, W] [b, i, j]))"
    by (rule sampler_eval_bilinear [OF inp(1) C H W _ _ gl]) simp_all
  then obtain out where
    ev: "sampler_eval inp ?g ''nearest'' = Inr out" and so: "shape out = [N, C, H, W]"
    and lo: "length (data out) = N * C * H * W"
    and val: "\<And>b c i j. b < N \<Longrightarrow> c < C \<Longrightarrow> i < H \<Longrightarrow> j < W \<Longrightarrow>
           data out ! ravel [N, C, H, W] [b, c, i, j]
             = bilinear ''nearest'' inp gs b c (ravel [N, H, W] [b, i, j])"
    by blast
  have same: "data out ! ravel [N, C, H, W] [b, c, i, j] = data inp ! ravel [N, C, H, W] [b, c, i, j]"
    if b: "b < N" and c: "c < C" and i: "i < H" and j: "j < W" for b c i j
  proof -
    note r2 = ravel3_div(2) [OF i j, where N = N and b = b] and r3 = ravel3_div(3) [OF i j]
    have m: "(i * W + j) mod W = j" "(i * W + j) div W = i" using j by simp_all
    from gv [OF b r3] have
      "gs ! (b * ?P + (i * W + j)) = real j * (2 / (real W - 1)) - 1"
      "gs ! (N * ?P + (b * ?P + (i * W + j))) = real i * (2 / (real H - 1)) - 1"
      unfolding m by simp_all
    from identity_bilinear [OF inp H W gl this b c i j] val [OF b c i j]
    show ?thesis unfolding r2 by simp
  qed
  have "data out = data inp"
  proof (rule nth_equalityI)
    show "length (data out) = length (data inp)" by (simp add: lo inp(2,3))
  next
    fix k assume "k < length (data out)"
    then have k: "k < prod_list [N, C, H, W]" by (simp add: lo mult.assoc)
    from unravel_bounds [OF k] obtain b c i j where
      u: "unravel [N, C, H, W] k = [b, c, i, j]" and bd: "b < N" "c < C" "i < H" "j < W"
      by (auto simp: list_all2_Cons2)
    from ravel_unravel [OF k] have "k = ravel [N, C, H, W] [b, c, i, j]"
      unfolding u by simp
    with same [OF bd] show "data out ! k = data inp ! k" by simp
  qed
  with so inp(1) have "out = inp" by simp
  moreover have "transformer_sampler_impl inp ?g ''nearest'' = sampler_eval inp ?g ''nearest''"
    by (simp add: transformer_sampler_impl_def inp(1))
  ultimately show ?thesis
    by (simp add: g ebind_def ev)
qed

theorem identity_transform_reproduces_input_witness:
  "ebind (transformer_grid_impl (identity_theta 1) (1, 1, 2, 2))
      (\<lambda>grid. transformer_sampler_impl \<lparr>shape = [1, 1, 2, 2], data = [Fin 1, Fin 2, Fin 3, Fin 4]\<rparr>
         grid ''nearest'')
    = Inr \<lparr>shape = [1, 1, 2, 2], data = [Fin 1, Fin 2, Fin 3, Fin 4]\<rparr>"
  using identity_transform_reproduces_input
    [of "\<lparr>shape = [1, 1, 2, 2], data = [Fin 1, Fin 2, Fin 3, Fin 4]\<rparr>" 1 1 2 2 "[1, 2, 3, 4]"]
  by simp

section \<open>The interpolation weights\<close>

text \<open>
  C3.  At every output location the four interpolation weights \<open>wa\<close>, \<open>wb\<close>,
  \<open>wc\<close>, \<open>wd\<close> of the sampler add up to one and each lies between zero and
  one, whatever finite values the grid holds (inside \<open>[-1, 1]\<close> or not) and
  whatever the size of the image.  \<open>weights\<close> takes the pixel coordinates only:
  the border mode is not among its arguments, so the weights are the same
  under all three modes.
\<close>

theorem weights_sum_one:
  assumes xy: "sampler_xy inp grid = Inr (x, y)"
    and fin: "list_all is_fin (data grid)"
    and w: "weights x y = (wa, wb, wc, wd)"
    and l: "l < length wa"
  shows "wa ! l + wb ! l + wc ! l + wd ! l = Fin 1
    \<and> Fin 0 \<le> wa ! l \<and> wa ! l \<le> Fin 1
    \<and> Fin 0 \<le> wb ! l \<and> wb ! l \<le> Fin 1
    \<and> Fin 0 \<le> wc ! l \<and> wc ! l \<le> Fin 1
    \<and> Fin 0 \<le> wd ! l \<and> wd ! l \<le> Fin 1"
proof -
  from weights_length [OF w] l have lx: "l < length x" and ly: "l < length y" by auto
  from sampler_xy_fin [OF xy fin] lx ly have "is_fin (x ! l)" "is_fin (y ! l)"
    by (simp_all add: list_all_length)
  then obtain a b where ab: "x ! l = Fin a" "y ! l = Fin b"
    unfolding is_fin_conv by blast
  define u where "u = of_int \<lfloor>a\<rfloor> + 1 - a"
  define v where "v = of_int \<lfloor>b\<rfloor> + 1 - b"
  have u: "0 \<le> u" "u \<le> 1" "0 \<le> 1 - u" "1 - u \<le> 1" unfolding u_def by linarith+
  have v: "0 \<le> v" "v \<le> 1" "0 \<le> 1 - v" "1 - v \<le> 1" unfolding v_def by linarith+
  have a': "a - of_int \<lfloor>a\<rfloor> = 1 - u" and b': "b - of_int \<lfloor>b\<rfloor> = 1 - v"
    by (simp_all add: u_def v_def)
  note nth = weights_nth [OF w lx ly ab, folded u_def v_def, unfolded a' b']
  have s: "u * v + u * (1 - v) + (1 - u) * v + (1 - u) * (1 - v) = 1"
    by (simp add: algebra_simps)
  show ?thesis
    unfolding nth using s unit_product [OF u(1,2) v(1,2)] unit_product [OF u(1,2) v(3,4)]
      unit_product [OF u(3,4) v(1,2)] unit_product [OF u(3,4) v(3,4)]
    by simp
qed

theorem weights_sum_one_witness:
  "sampler_xy ex_inp ex_grid = Inr ([Fin (5 / 4)], [Fin (7 / 20)])
   \<and> weights [Fin (5 / 4)] [Fin (7 / 20)]
       = ([Fin (39 / 80)], [Fin (21 / 80)], [Fin (13 / 80)], [Fin (7 / 80)])
   \<and> Fin (39 / 80) + Fin (21 / 80) + Fin (13 / 80) + Fin (7 / 80) = Fin 1
   \<and> Fin 0 \<le> Fin (39 / 80) \<and> Fin (39 / 80) \<le> Fin 1"
proof -
  have xy: "sampler_xy ex_inp ex_grid = Inr ([Fin (5 / 4)], [Fin (7 / 20)])"
    unfolding ex_inp_def ex_grid_def by code_simp
  have fin: "list_all is_fin (data ex_grid)"
    by (simp add: ex_grid_def)
  have w: "weights [Fin (5 / 4)] [Fin (7 / 20)]
      = ([Fin (39 / 80)], [Fin (21 / 80)], [Fin (13 / 80)], [Fin (7 / 80)])"
    by (simp add: weights_def vmul_def vsub_def)
  from weights_sum_one [OF xy fin w, of 0] xy w show ?thesis
    by simp
qed

section \<open>The border modes\<close>

text \<open>
  C4.  For an image of width 4 (and height 4) and the pixel coordinate 4.3,
  the floor is 4 and its neighbour 5.  Mode \<open>nearest\<close> clips both to 3; mode
  \<open>wrap\<close> gives \<open>4 mod 4 = 0\<close> and \<open>5 mod 4 = 1\<close>; mode \<open>mirror\<close> gives
  \<open>min (4 mod 6) (-4 mod 6) = 2\<close> and \<open>min (5 mod 6) (-5 mod 6) = 1\<close>, with
  \<open>6 = 2 * (4 - 1)\<close>.  The same holds for \<open>y\<close>.
\<close>

theorem border_modes_at_4_3:
  "neighbour_indices ''nearest'' (Fin 4) (Fin 4) [Fin 4.3] [Fin 4.3]
     = Inr ([3], [3], [3], [3])
   \<and> neighbour_indices ''wrap'' (Fin 4) (Fin 4) [Fin 4.3] [Fin 4.3]
     = Inr ([4 mod 4], [5 mod 4], [4 mod 4], [5 mod 4])
   \<and> neighbour_indices ''wrap'' (Fin 4) (Fin 4) [Fin 4.3] [Fin 4.3]
     = Inr ([0], [1], [0], [1])
   \<and> neighbour_indices ''mirror'' (Fin 4) (Fin 4) [Fin 4.3] [Fin 4.3]
     = Inr ([min (4 mod 6) (- 4 mod 6)], [min (5 mod 6) (- 5 mod 6)],
            [min (4 mod 6) (- 4 mod 6)], [min (5 mod 6) (- 5 mod 6)])
   \<and> neighbour_indices ''mirror'' (Fin 4) (Fin 4) [Fin 4.3] [Fin 4.3]
     = Inr ([2], [1], [2], [1])"
  by (simp add: neighbour_indices_def cast4_def cast_int64s_def ebind_def fclip_def
      fminimum_def trunc_def)

text \<open>
  C8.  Called with a border mode other than \<open>nearest\<close>, \<open>mirror\<close> and \<open>wrap\<close>
  (on an input of rank 4 and a grid of rank 4 or more, so that the function
  reaches the test), the sampler raises the \<^verbatim>\<open>ValueError\<close> of lines 104 and 105,
  whatever the arrays hold: no result is computed and no mode is put in the
  place of the unknown one.
\<close>

theorem unknown_border_mode_rejected:
  assumes "border_mode \<noteq> ''nearest''" "border_mode \<noteq> ''mirror''" "border_mode \<noteq> ''wrap''"
    and "length (shape inp) = 4" "4 \<le> length (shape grid)"
  shows "transformer_sampler_impl inp grid border_mode = Inl ValueError_border_mode"
  using assms by (simp add: transformer_sampler_impl_def)

theorem unknown_border_mode_rejected_witness:
  "transformer_sampler_impl ex_inp ex_grid ''bilinear'' = Inl ValueError_border_mode"
  by (rule unknown_border_mode_rejected) (simp_all add: ex_inp_def ex_grid_def)

text \<open>
  C10.  For an input of height and width at least 2, a grid of finite values
  and one of the three border modes, every index the sampler computes for
  the four corners (\<open>idx_a\<close>, \<open>idx_b\<close>, \<open>idx_c\<close>, \<open>idx_d\<close>, lines 111 to 120)
  lies in \<open>[0, N * H * W - 1]\<close>, the rows of the flattened input: \<open>nearest\<close>
  clips the coordinate to \<open>[0, dim - 1]\<close>, \<open>wrap\<close> reduces it modulo \<open>dim\<close>, and
  the smaller of the two remainders modulo \<open>2 * (dim - 1)\<close> that \<open>mirror\<close> takes
  is at most \<open>dim - 1\<close>.
\<close>

theorem gather_indices_in_bounds:
  assumes inp: "shape inp = [N, C, H, W]" and H: "2 \<le> H" and W: "2 \<le> W"
    and fin: "list_all is_fin (data grid)"
    and bm: "border_mode = ''nearest'' \<or> border_mode = ''mirror'' \<or> border_mode = ''wrap''"
    and xy: "sampler_xy inp grid = Inr (x, y)"
    and ni: "neighbour_indices border_mode (cast_floatX (int H)) (cast_floatX (int W)) x y
               = Inr (x0, x1, y0, y1)"
    and gi: "gather_indices N H W out_height out_width x0 x1 y0 y1
               = Inr (idx_a, idx_b, idx_c, idx_d)"
  shows "list_all (\<lambda>i. 0 \<le> i \<and> i < int (N * H * W)) (idx_a @ idx_b @ idx_c @ idx_d)"
proof -
  let ?base = "repeat (map (\<lambda>b. int b * (int W * int H)) [0..<N]) (out_height * out_width)"
  from sampler_xy_fin [OF xy fin] have f: "list_all is_fin x" "list_all is_fin y"
    by simp_all
  have "x = map Fin (map the_fin x)" "y = map Fin (map the_fin y)"
    by (rule finite_list_conv [OF f(1)], rule finite_list_conv [OF f(2)])
  with ni neighbour_indices_ints [OF H W bm, of "map the_fin x" "map the_fin y"]
  have c: "x0 = map (\<lambda>a. border_int border_mode W \<lfloor>a\<rfloor>) (map the_fin x)"
    "x1 = map (\<lambda>a. border_int border_mode W (\<lfloor>a\<rfloor> + 1)) (map the_fin x)"
    "y0 = map (\<lambda>a. border_int border_mode H \<lfloor>a\<rfloor>) (map the_fin y)"
    "y1 = map (\<lambda>a. border_int border_mode H (\<lfloor>a\<rfloor> + 1)) (map the_fin y)"
    by simp_all
  have in_x: "0 \<le> v ! l \<and> v ! l < int W" if "v = x0 \<or> v = x1" "l < length v" for v l
    using that border_int_range [OF W bm] by (auto simp: c)
  have in_y: "0 \<le> v ! l \<and> v ! l < int H" if "v = y0 \<or> v = y1" "l < length v" for v l
    using that border_int_range [OF H bm] by (auto simp: c)
  have base: "\<exists>b < N. ?base ! l = int b * (int W * int H)" if "l < length ?base" for l
  proof -
    from that have "?base ! l \<in> set ?base" by (rule nth_mem)
    then have "?base ! l \<in> set (map (\<lambda>b. int b * (int W * int H)) [0..<N])"
      by (rule subsetD [OF repeat_set])
    then obtain b where "b \<in> set [0..<N]" "?base ! l = int b * (int W * int H)"
      unfolding set_map by (elim imageE) simp
    then show ?thesis by (intro exI [of _ b]) simp
  qed
  have range: "list_all (\<lambda>i. 0 \<le> i \<and> i < int (N * H * W)) idx"
    if yv: "yv = y0 \<or> yv = y1" and xv: "xv = x0 \<or> xv = x1"
      and sy: "vadd ?base (map (\<lambda>v. v * int W) yv) = Inr base_y" and sx: "vadd base_y xv = Inr idx"
    for yv xv base_y idx
  proof -
    note a = vadd_Inr [OF sy] and b = vadd_Inr [OF sx]
    have "0 \<le> idx ! l \<and> idx ! l < int (N * H * W)" if l: "l < length idx" for l
    proof -
      have ll: "l < length ?base" "l < length yv" "l < length xv" "l < length base_y"
        using l a b by simp_all
      obtain bb where bb: "bb < N" "?base ! l = int bb * (int W * int H)"
        using base [OF ll(1)] by blast
      have "idx ! l = int bb * (int W * int H) + yv ! l * int W + xv ! l"
        using a b ll bb(2) by simp
      with flat_index_range [OF bb(1) in_y [OF yv ll(2)] in_x [OF xv ll(3)]]
      show ?thesis by simp
    qed
    then show ?thesis by (simp add: list_all_length)
  qed
  from gather_indices_Inr [OF gi] obtain base_y0 base_y1 where
    v: "vadd ?base (map (\<lambda>v. v * int W) y0) = Inr base_y0"
       "vadd ?base (map (\<lambda>v. v * int W) y1) = Inr base_y1"
       "vadd base_y0 x0 = Inr idx_a" "vadd base_y1 x0 = Inr idx_b"
       "vadd base_y0 x1 = Inr idx_c" "vadd base_y1 x1 = Inr idx_d"
    by blast
  show ?thesis
    using range [OF _ _ v(1) v(3)] range [OF _ _ v(2) v(4)] range [OF _ _ v(1) v(5)]
      range [OF _ _ v(2) v(6)]
    by simp
qed

theorem gather_indices_in_bounds_witness:
  "sampler_xy ex_inp ex_grid = Inr ([Fin (5 / 4)], [Fin (7 / 20)])
   \<and> neighbour_indices ''mirror'' (cast_floatX 2) (cast_floatX 2) [Fin (5 / 4)] [Fin (7 / 20)]
       = Inr ([1], [0], [0], [1])
   \<and> gather_indices 1 2 2 1 1 [1] [0] [0] [1] = Inr ([1], [3], [0], [2])
   \<and> list_all (\<lambda>i. 0 \<le> i \<and> i < int (1 * 2 * 2)) ([1] @ [3] @ [0] @ [2])"
proof -
  have xy: "sampler_xy ex_inp ex_grid = Inr ([Fin (5 / 4)], [Fin (7 / 20)])"
    unfolding ex_inp_def ex_grid_def by code_simp
  have ni: "neighbour_indices ''mirror'' (cast_floatX (int 2)) (cast_floatX (int 2))
      [Fin (5 / 4)] [Fin (7 / 20)] = Inr ([1], [0], [0], [1])"
    by code_simp
  have gi: "gather_indices 1 2 2 1 1 [1] [0] [0] [1] = Inr ([1], [3], [0], [2])"
    by code_simp
  have sh: "shape ex_inp = [1, 1, 2, 2]" by (simp add: ex_inp_def)
  have fin: "list_all is_fin (data ex_grid)" by (simp add: ex_grid_def)
  from gather_indices_in_bounds [OF sh _ _ fin _ xy ni gi] xy ni gi show ?thesis
    by simp
qed

section \<open>The grid generator on a single-sample axis\<close>

text \<open>
  C9.  The claim is that an output height or width of one is handled by an
  explicit policy.  The code has none: \<^verbatim>\<open>_linspace\<close> divides by \<open>num - 1 = 0\<close>,
  the step is infinite, the single sample is \<open>0 * inf - 1\<close>, a NaN, and the NaN
  spreads through the product with \<^verbatim>\<open>theta\<close>: for every \<^verbatim>\<open>theta\<close> of shape
  \<open>(N, 2, 3)\<close> every entry of the grid is NaN, and no error is raised.
\<close>

theorem single_sample_axis_gives_nan:
  assumes "shape theta = [N, 2, 3]" "out_height = 1 \<or> out_width = 1"
  shows "transformer_grid_impl theta (int N, c, int out_height, int out_width)
    = Inr \<lparr>shape = [2, N, out_height, out_width],
           data = replicate (2 * (N * (out_height * out_width))) NaN\<rparr>"
proof -
  let ?P = "out_height * out_width"
  from grid_impl_nth [OF assms(1), of c out_height out_width] obtain g where
    g: "transformer_grid_impl theta (int N, c, int out_height, int out_width) = Inr g"
      "shape g = [2, N, out_height, out_width]" "length (data g) = 2 * N * ?P"
      "\<And>i b p. i < 2 \<Longrightarrow> b < N \<Longrightarrow> p < ?P \<Longrightarrow>
         data g ! (i * (N * ?P) + b * ?P + p)
           = grid_value (data theta) out_height out_width (b * 2 + i) p"
    by blast
  have l1: "lin (Suc 0) 0 = NaN" by (simp add: lin_def)
  have nan: "a * NaN = NaN" "NaN + a = NaN" "a + NaN = NaN" for a :: floatX
    by (cases a; simp)+
  have v: "grid_value (data theta) out_height out_width r p = NaN" if "p < ?P" for r p
  proof -
    from assms(2) have "mesh_x out_width p = NaN \<or> mesh_y out_height out_width p = NaN"
    proof
      assume h: "out_height = 1"
      then have "p div out_width = 0" using that by simp
      then show ?thesis by (simp add: mesh_y_def h l1 nan)
    next
      assume "out_width = 1"
      then show ?thesis by (simp add: mesh_x_def l1 nan)
    qed
    then show ?thesis by (auto simp: grid_value_def nan)
  qed
  have "data g = replicate (2 * (N * ?P)) NaN"
  proof (rule nth_equalityI)
    show "length (data g) = length (replicate (2 * (N * ?P)) NaN)"
      by (simp add: g(3) mult.assoc)
  next
    fix k assume "k < length (data g)"
    then have k: "k < 2 * (N * ?P)" by (simp add: g(3) mult.assoc)
    then obtain i b p where d: "i < 2" "b < N" "p < ?P" "k = i * (N * ?P) + b * ?P + p"
      by (rule index3_decompose)
    from g(4) [OF d(1-3)] v [OF d(3)] k show "data g ! k = replicate (2 * (N * ?P)) NaN ! k"
      unfolding d(4) by simp
  qed
  with g(1,2) show ?thesis by simp
qed

theorem single_sample_axis_gives_nan_witness:
  "linspace (Fin (- 1)) (Fin 1) 1 = \<lparr>shape = [1], data = [NaN]\<rparr>
   \<and> transformer_grid_impl (identity_theta 1) (1, 1, 2, 1)
       = Inr \<lparr>shape = [2, 1, 2, 1], data = [NaN, NaN, NaN, NaN]\<rparr>"
proof -
  have "linspace (Fin (- 1)) (Fin 1) 1 = \<lparr>shape = [1], data = [NaN]\<rparr>"
    by (simp add: linspace_def arange_def cast_floatX_def)
  moreover have "transformer_grid_impl (identity_theta 1) (1, 1, 2, 1)
       = Inr \<lparr>shape = [2, 1, 2, 1], data = [NaN, NaN, NaN, NaN]\<rparr>"
    using single_sample_axis_gives_nan [of "identity_theta 1" 1 2 1 1]
    by (simp add: identity_theta_def numeral_eq_Suc)
  ultimately show ?thesis by simp
qed

section \<open>What the entry point does with its arguments\<close>

text \<open>
  C1.  The claim is that \<^verbatim>\<open>spatialtf\<close> samples with the border mode its caller
  gives.  It does not: the parameter \<^verbatim>\<open>border_mode\<close> is never used, so the result
  is the same for every value of it, and the sampler runs with the mode of
  the operator.  On the \<open>2 \<times> 2\<close> image with the grid shifted by one unit, a
  call asking for \<open>wrap\<close> while the operator holds \<open>nearest\<close> returns what
  \<open>nearest\<close> gives, which differs from what \<open>wrap\<close> gives.  Whatever the
  operator's mode is, the calls for \<open>wrap\<close> and for \<open>nearest\<close> return the same
  array, so one of them is not the sampling the caller asked for.
\<close>

theorem spatialtf_drops_border_mode:
  "spatialtf op_border_mode inp theta scale_height scale_width border_mode
     = spatialtf op_border_mode inp theta scale_height scale_width ''nearest''
   \<and> spatialtf ''nearest'' ex_inp shift_theta 1 1 ''wrap''
     = Inr \<lparr>shape = [1, 1, 2, 2], data = [Fin (3 / 2), Fin 2, Fin (7 / 2), Fin 4]\<rparr>
   \<and> ebind (transformer_grid_impl shift_theta (1, 1, 2, 2))
        (\<lambda>grid. transformer_sampler_impl ex_inp grid ''wrap'')
     = Inr \<lparr>shape = [1, 1, 2, 2], data = [Fin (3 / 2), Fin (3 / 2), Fin (7 / 2), Fin (7 / 2)]\<rparr>
   \<and> ebind (transformer_grid_impl shift_theta (1, 1, 2, 2))
        (\<lambda>grid. transformer_sampler_impl ex_inp grid ''nearest'')
     = Inr \<lparr>shape = [1, 1, 2, 2], data = [Fin (3 / 2), Fin 2, Fin (7 / 2), Fin 4]\<rparr>"
proof -
  have "spatialtf op_border_mode inp theta scale_height scale_width border_mode
     = spatialtf op_border_mode inp theta scale_height scale_width ''nearest''"
    by (simp add: spatialtf_def)
  moreover have "spatialtf ''nearest'' ex_inp shift_theta 1 1 ''wrap''
     = Inr \<lparr>shape = [1, 1, 2, 2], data = [Fin (3 / 2), Fin 2, Fin (7 / 2), Fin 4]\<rparr>"
    unfolding ex_inp_def shift_theta_def by code_simp
  moreover have "ebind (transformer_grid_impl shift_theta (1, 1, 2, 2))
        (\<lambda>grid. transformer_sampler_impl ex_inp grid ''wrap'')
     = Inr \<lparr>shape = [1, 1, 2, 2], data = [Fin (3 / 2), Fin (3 / 2), Fin (7 / 2), Fin (7 / 2)]\<rparr>"
    unfolding ex_inp_def shift_theta_def by code_simp
  moreover have "ebind (transformer_grid_impl shift_theta (1, 1, 2, 2))
        (\<lambda>grid. transformer_sampler_impl ex_inp grid ''nearest'')
     = Inr \<lparr>shape = [1, 1, 2, 2], data = [Fin (3 / 2), Fin 2, Fin (7 / 2), Fin 4]\<rparr>"
    unfolding ex_inp_def shift_theta_def by code_simp
  ultimately show ?thesis by simp
qed

text \<open>
  C7, as stated, fails: \<^verbatim>\<open>spatialtf\<close> has no check of the batch sizes.  With two
  images, one transform and a scale that makes the output empty, nothing
  fails and an (empty) result is returned.
\<close>

theorem batch_mismatch_accepted_counterexample:
  "shape ex_inp2 = [2, 1, 2, 2] \<and> shape (identity_theta 1) = [1, 2, 3]
   \<and> spatialtf ''nearest'' ex_inp2 (identity_theta 1) (1 / 4) 1 ''nearest''
       = Inr \<lparr>shape = [2, 1, 0, 2], data = []\<rparr>"
proof -
  have "spatialtf ''nearest'' ex_inp2 (identity_theta 1) (1 / 4) 1 ''nearest''
       = Inr \<lparr>shape = [2, 1, 0, 2], data = []\<rparr>"
    unfolding ex_inp2_def identity_theta_def by code_simp
  then show ?thesis by (simp add: ex_inp2_def identity_theta_def)
qed

text \<open>
  C7, amended.  An input of rank other than 4 or a \<^verbatim>\<open>theta\<close> of rank other than 3
  fails the assertion of lines 14 and 17.  Batch sizes are not compared by
  \<^verbatim>\<open>spatialtf\<close>; for an input of shape \<open>(N, C, H, W)\<close> and a \<^verbatim>\<open>theta\<close> of shape
  \<open>(M, 2, 3)\<close> with \<open>M \<noteq> N\<close>, the call fails in the last reshape of the grid
  generator whenever the output has at least one row and one column, and then
  no result is produced.
\<close>

theorem spatialtf_rejections:
  "(length (shape inp) \<noteq> 4 \<or> length (shape theta) \<noteq> 3 \<longrightarrow>
      spatialtf op_border_mode inp theta scale_height scale_width border_mode = Inl AssertionError)
   \<and> (shape inp = [N, C, H, W] \<and> shape theta = [M, 2, 3] \<and> M \<noteq> N
        \<and> 0 < trunc (scale_height * real H) \<and> 0 < trunc (scale_width * real W) \<longrightarrow>
      spatialtf op_border_mode inp theta scale_height scale_width border_mode
        = Inl ValueError_shape)"
proof (intro conjI impI)
  assume "length (shape inp) \<noteq> 4 \<or> length (shape theta) \<noteq> 3"
  then show "spatialtf op_border_mode inp theta scale_height scale_width border_mode
      = Inl AssertionError"
    by (auto simp: spatialtf_def)
next
  assume a: "shape inp = [N, C, H, W] \<and> shape theta = [M, 2, 3] \<and> M \<noteq> N
        \<and> 0 < trunc (scale_height * real H) \<and> 0 < trunc (scale_width * real W)"
  define oh where "oh = nat (trunc (scale_height * real H))"
  define ow where "ow = nat (trunc (scale_width * real W))"
  have p: "0 < oh" "0 < ow" "trunc (scale_height * real H) = int oh"
    "trunc (scale_width * real W) = int ow"
    using a by (simp_all add: oh_def ow_def)
  have "transformer_grid_impl theta (int N, int C, int oh, int ow) = Inl ValueError_shape"
    using a p(1,2) by (intro grid_impl_batch_mismatch) blast+
  then show "spatialtf op_border_mode inp theta scale_height scale_width border_mode
      = Inl ValueError_shape"
    using a by (simp add: spatialtf_def Let_def p(3,4) ebind_def)
qed

theorem spatialtf_rejections_witness:
  "spatialtf ''nearest'' \<lparr>shape = [2, 2], data = [Fin 1, Fin 2, Fin 3, Fin 4]\<rparr>
       (identity_theta 1) 1 1 ''nearest'' = Inl AssertionError
   \<and> spatialtf ''nearest'' ex_inp2 (identity_theta 1) 1 1 ''nearest'' = Inl ValueError_shape"
proof -
  note t = spatialtf_rejections [of _ _ "''nearest''" 1 1 "''nearest''"]
  have 1: "spatialtf ''nearest'' \<lparr>shape = [2, 2], data = [Fin 1, Fin 2, Fin 3, Fin 4]\<rparr>
       (identity_theta 1) 1 1 ''nearest'' = Inl AssertionError"
    by (rule t [THEN conjunct1, THEN mp]) simp
  have 2: "spatialtf ''nearest'' ex_inp2 (identity_theta 1) 1 1 ''nearest'' = Inl ValueError_shape"
    by (rule t [of ex_inp2 "identity_theta 1" 2 1 2 2 1, THEN conjunct2, THEN mp])
       (simp add: ex_inp2_def identity_theta_def trunc_def)
  from 1 2 show ?thesis by simp
qed

section \<open>The gradient with respect to theta\<close>

lemma upt_0_2': "[0..<Suc (Suc 0)] = [0, Suc 0]"
  by (simp add: upt_rec)

lemma dimshuffle_10_nth:
  assumes "shape t = [K, P]"
  shows "\<exists>t'. dimshuffle [Some 1, Some 0] t = Inr t'
    \<and> shape t' = [P, K] \<and> length (data t') = P * K
    \<and> (\<forall>p k. p < P \<longrightarrow> k < K \<longrightarrow> data t' ! (p * K + k) = data t ! (k * P + p))"
proof -
  let ?t' = "\<lparr>shape = [P, K],
         data = map (\<lambda>m. data t ! ravel [K, P] [unravel [P, K] m ! 1, unravel [P, K] m ! 0])
                  [0..<P * K]\<rparr>"
  have d: "dimshuffle [Some 1, Some 0] t = Inr ?t'"
    using assms by (simp add: dimshuffle_def upt_0_2 Let_def del: ravel.simps unravel.simps)
  have "data ?t' ! (p * K + k) = data t ! (k * P + p)" if "p < P" "k < K" for p k
  proof -
    have a: "list_all2 (<) [p, k] [P, K]" using that by simp
    have r: "ravel [P, K] [p, k] = p * K + k" by simp
    from ravel_less [OF a] have "p * K + k < P * K" by simp
    then show ?thesis
      using unravel_ravel [OF a] unfolding r by (simp del: unravel.simps)
  qed
  then show ?thesis using d by (intro exI [of _ ?t']) simp
qed

lemma mesh_values:
  assumes "2 \<le> oh" "2 \<le> ow"
  shows "mesh_x ow p = Fin (mesh_real oh ow 0 p)" "mesh_y oh ow p = Fin (mesh_real oh ow 1 p)"
  using assms by (simp_all add: mesh_x_def mesh_y_def lin_Fin mesh_real_def)

lemma foldl_Fin_sum:
  "foldl (+) (Fin a) (map (\<lambda>l. Fin (f l)) xs) = Fin (a + sum_list (map f xs))"
  by (induction xs arbitrary: a) (simp_all add: add.assoc)

lemma index3_bound:
  fixes i b p N P :: nat
  assumes "i < 2" "b < N" "p < P"
  shows "i * (N * P) + b * P + p < 2 * (N * P)"
proof -
  have a: "list_all2 (<) [i, b, p] [2, N, P]" using assms by simp
  from ravel_less [OF a] show ?thesis by (simp add: add.assoc)
qed

lemma grid_reals_nth:
  assumes v: "length v = N * 6" and d: "2 \<le> oh" "2 \<le> ow"
  shows "length (grid_reals N oh ow v) = 2 * (N * (oh * ow))"
    and "i < 2 \<Longrightarrow> b < N \<Longrightarrow> p < oh * ow \<Longrightarrow>
      grid_reals N oh ow v ! (i * (N * (oh * ow)) + b * (oh * ow) + p)
        = v ! ((b * 2 + i) * 3) * mesh_real oh ow 0 p
          + v ! ((b * 2 + i) * 3 + 1) * mesh_real oh ow 1 p + v ! ((b * 2 + i) * 3 + 2)"
proof -
  let ?P = "oh * ow"
  let ?th = "\<lparr>shape = [N, 2, 3], data = map Fin v\<rparr>"
  have "shape ?th = [N, 2, 3]" by simp
  from grid_impl_nth [OF this, of 1 oh ow] obtain g where
    g: "transformer_grid_impl ?th (int N, 1, int oh, int ow) = Inr g"
      "length (data g) = 2 * N * ?P"
      "\<And>i b p. i < 2 \<Longrightarrow> b < N \<Longrightarrow> p < ?P \<Longrightarrow>
         data g ! (i * (N * ?P) + b * ?P + p) = grid_value (data ?th) oh ow (b * 2 + i) p"
    by blast
  have e: "grid_reals N oh ow v = map the_fin (data g)"
    by (simp add: grid_reals_def g(1))
  show "length (grid_reals N oh ow v) = 2 * (N * ?P)"
    by (simp add: e g(2) mult.assoc)
  assume a: "i < 2" "b < N" "p < ?P"
  have r: "(b * 2 + i) * 3 + 2 < length v" using a v by simp
  then have r': "(b * 2 + i) * 3 < length v" "(b * 2 + i) * 3 + 1 < length v" by simp_all
  have k: "i * (N * ?P) + b * ?P + p < length (data g)"
    unfolding g(2) using index3_bound [OF a] by (simp add: mult.assoc)
  have "data g ! (i * (N * ?P) + b * ?P + p)
      = Fin (v ! ((b * 2 + i) * 3) * mesh_real oh ow 0 p
          + v ! ((b * 2 + i) * 3 + 1) * mesh_real oh ow 1 p + v ! ((b * 2 + i) * 3 + 2))"
    unfolding g(3) [OF a] grid_value_def mesh_values [OF d]
    using r r' by simp
  then show "grid_reals N oh ow v ! (i * (N * ?P) + b * ?P + p)
        = v ! ((b * 2 + i) * 3) * mesh_real oh ow 0 p
          + v ! ((b * 2 + i) * 3 + 1) * mesh_real oh ow 1 p + v ! ((b * 2 + i) * 3 + 2)"
    unfolding e using k by simp
qed

lemma reshape3:
  assumes "length (data t) = 2 * (N * P)"
  shows "reshape t [2, int N, int P] = Inr \<lparr>shape = [2, N, P], data = data t\<rparr>"
  using assms by (auto simp: reshape_def Let_def)

lemma mesh_data_nth:
  assumes "2 \<le> oh" "2 \<le> ow" "k < 3" "p < oh * ow"
  shows "(map (mesh_x ow) [0..<oh * ow] @ map (mesh_y oh ow) [0..<oh * ow]
          @ replicate (oh * ow) (Fin 1)) ! (k * (oh * ow) + p) = Fin (mesh_real oh ow k p)"
proof -
  from assms(3) consider "k = 0" | "k = 1" | "k = 2" by linarith
  then show ?thesis
  proof cases
    case 1
    then show ?thesis using assms(4) by (simp add: nth_append mesh_values [OF assms(1,2)])
  next
    case 2
    then show ?thesis using assms(4) by (simp add: nth_append mesh_values [OF assms(1,2)])
  next
    case 3
    then show ?thesis using assms(4) by (simp add: nth_append mesh_real_def)
  qed
qed

lemma index_decompose6:
  fixes m N :: nat
  assumes "m < N * 2 * 3"
  obtains b i k where "b < N" "i < 2" "k < 3" "m = (b * 2 + i) * 3 + k"
    "m div 3 = b * 2 + i" "m mod 3 = k" "(m div 3) mod 2 = i" "m div 6 = b"
proof -
  let ?r = "m div 3"
  have r: "?r < N * 2" using assms by (simp add: less_mult_imp_div_less)
  show ?thesis
  proof (rule that [of "?r div 2" "?r mod 2" "m mod 3"])
    show "?r div 2 < N" using r by (simp add: less_mult_imp_div_less)
    show "?r mod 2 < 2" by simp
    show "m mod 3 < 3" by simp
    have e: "?r = ?r div 2 * 2 + ?r mod 2" by (simp only: div_mult_mod_eq)
    have "m = ?r * 3 + m mod 3" by (simp only: div_mult_mod_eq)
    then show "m = (?r div 2 * 2 + ?r mod 2) * 3 + m mod 3" using e by simp
    show "m div 3 = ?r div 2 * 2 + ?r mod 2" by (rule e)
    show "m mod 3 = m mod 3" ..
    show "?r mod 2 = ?r mod 2" ..
    show "m div 6 = ?r div 2" by (simp add: div_mult2_eq)
  qed
qed

lemma gradt_explicit:
  assumes th: "shape theta = [N, 2, 3]"
    and gg: "shape grad_grid = [2, N, oh, ow]" "data grad_grid = map Fin gg"
      "length gg = 2 * (N * (oh * ow))"
    and d: "2 \<le> oh" "2 \<le> ow"
  shows "gridBackward theta grad_grid
    = Inr \<lparr>shape = [N, 2, 3],
           data = map (\<lambda>m. Fin (grad_theta_real N oh ow gg m)) [0..<N * 2 * 3]\<rparr>"
proof -
  let ?P = "oh * ow"
  let ?mesh = "\<lparr>shape = [3, ?P],
          data = map (mesh_x ow) [0..<?P] @ map (mesh_y oh ow) [0..<?P]
                 @ replicate ?P (Fin 1)\<rparr>"
  let ?g3 = "\<lparr>shape = [2, N, ?P], data = data grad_grid\<rparr>"
  have rs: "reshape grad_grid [2, int N, int ?P] = Inr ?g3"
    by (rule reshape3) (simp add: gg)
  have "shape ?g3 = [2, N, ?P]" by simp
  from dimshuffle_102_nth [OF this] obtain gb where
    gb: "dimshuffle [Some 1, Some 0, Some 2] ?g3 = Inr gb" "shape gb = [N, 2, ?P]"
      "\<And>b i p. b < N \<Longrightarrow> i < 2 \<Longrightarrow> p < ?P \<Longrightarrow>
         data gb ! ravel [N, 2, ?P] [b, i, p] = data ?g3 ! ravel [2, N, ?P] [i, b, p]"
    by blast
  have "shape ?mesh = [3, ?P]" by simp
  from dimshuffle_10_nth [OF this] obtain mt where
    mt: "dimshuffle [Some 1, Some 0] ?mesh = Inr mt" "shape mt = [?P, 3]"
      "\<And>p k. p < ?P \<Longrightarrow> k < 3 \<Longrightarrow> data mt ! (p * 3 + k) = data ?mesh ! (k * ?P + p)"
    by blast
  have tm: "data gb ! ((b * 2 + i) * ?P + p) * data mt ! (p * 3 + k)
      = Fin (gg ! (i * (N * ?P) + b * ?P + p) * mesh_real oh ow k p)"
    if "b < N" "i < 2" "k < 3" "p < ?P" for b i k p
  proof -
    have "data gb ! ((b * 2 + i) * ?P + p) = data ?g3 ! (i * (N * ?P) + b * ?P + p)"
      using gb(3) [OF that(1,2,4)] by (simp add: algebra_simps)
    also have "\<dots> = Fin (gg ! (i * (N * ?P) + b * ?P + p))"
      using index3_bound [OF that(2,1,4)] by (simp add: gg)
    finally have 1: "data gb ! ((b * 2 + i) * ?P + p) = Fin (gg ! (i * (N * ?P) + b * ?P + p))" .
    have 2: "data mt ! (p * 3 + k) = Fin (mesh_real oh ow k p)"
      using mt(3) [OF that(4,3)] mesh_data_nth [OF d that(3,4)] by simp
    show ?thesis unfolding 1 2 by simp
  qed
  have entry: "foldl (+) (Fin 0)
        (map (\<lambda>l. data gb ! ((m div 3) * ?P + l) * data mt ! (l * 3 + m mod 3)) [0..<?P])
      = Fin (grad_theta_real N oh ow gg m)" if "m < N * 2 * 3" for m
  proof -
    from that obtain b i k where c: "b < N" "i < 2" "k < 3"
      "m div 3 = b * 2 + i" "m mod 3 = k" "(m div 3) mod 2 = i" "m div 6 = b"
      by (rule index_decompose6)
    have eq: "map (\<lambda>l. data gb ! ((m div 3) * ?P + l) * data mt ! (l * 3 + k)) [0..<?P]
        = map (\<lambda>l. Fin (gg ! (i * (N * ?P) + b * ?P + l) * mesh_real oh ow k l)) [0..<?P]"
      unfolding c(4) using tm [OF c(1-3)] by simp
    show ?thesis
      unfolding grad_theta_real_def c(5,6,7) eq foldl_Fin_sum
      by (simp add: interv_sum_list_conv_sum_set_nat atLeast0LessThan)
  qed
  have dt: "dot gb mt = Inr \<lparr>shape = [N, 2, 3],
           data = map (\<lambda>m. Fin (grad_theta_real N oh ow gg m)) [0..<N * 2 * 3]\<rparr>"
    using entry by (simp add: dot_def gb(2) mt(2) Let_def mult.commute)
  have sh: "shape theta \<noteq> []" "length (shape grad_grid) = 4" "shape theta ! 0 = N"
    "shape grad_grid ! 2 = oh" "shape grad_grid ! 3 = ow"
    by (simp_all add: th gg)
  show ?thesis
    by (simp only: gridBackward_def sh Let_def meshgrid_nat rs gb(1) mt(1) dt
        ebind_def sum.case if_False simp_thms)
qed

lemma sum_blocks:
  fixes h :: "nat \<Rightarrow> real"
  shows "(\<Sum>l<M * P. h l) = (\<Sum>q<M. \<Sum>p<P. h (q * P + p))"
proof (induction M)
  case 0
  show ?case by simp
next
  case (Suc M)
  have "(\<Sum>l<Suc M * P. h l) = sum h {0..<M * P + P}"
    by (simp add: atLeast0LessThan add.commute)
  also have "\<dots> = sum h {0..<M * P} + sum h {0 + M * P..<P + M * P}"
    using sum.atLeastLessThan_concat [of 0 "M * P" "M * P + P" h] by (simp add: add.commute)
  also have "sum h {0 + M * P..<P + M * P} = (\<Sum>p = 0..<P. h (p + M * P))"
    by (rule sum.shift_bounds_nat_ivl)
  finally show ?case using Suc by (simp add: atLeast0LessThan add.commute)
qed

lemma deriv_entry:
  fixes v :: "real list"
  assumes "a < length v"
  shows "DERIV (\<lambda>t. v[j := t] ! a) x :> (if a = j then 1 else 0)"
proof (cases "a = j")
  case True
  then have "(\<lambda>t. v[j := t] ! a) = (\<lambda>t. t)" using assms by simp
  then show ?thesis using True by simp
next
  case False
  then have "(\<lambda>t. v[j := t] ! a) = (\<lambda>t. v ! a)" by simp
  then show ?thesis using False by simp
qed

lemma pair_index_eq:
  fixes i b N :: nat
  assumes "b < N" "b' < N"
  shows "(i' * N + b' = i * N + b) = (i' = i \<and> b' = b)"
proof
  assume e: "i' * N + b' = i * N + b"
  have "(i' * N + b') div N = i'" "(i' * N + b') mod N = b'"
    "(i * N + b) div N = i" "(i * N + b) mod N = b" using assms by simp_all
  then show "i' = i \<and> b' = b" using e by metis
qed simp

lemma grid_reals_vjp:
  assumes v: "length v = N * 6" and g: "length gg = 2 * (N * (oh * ow))"
    and d: "2 \<le> oh" "2 \<le> ow"
  shows "is_vjp (grid_reals N oh ow) v gg (map (grad_theta_real N oh ow gg) [0..<N * 6])"
  unfolding is_vjp_def
proof (intro conjI allI impI)
  let ?P = "oh * ow"
  show "length (map (grad_theta_real N oh ow gg) [0..<N * 6]) = length v" by (simp add: v)
  show "length (grid_reals N oh ow v) = length gg"
    using grid_reals_nth(1) [OF v d] g by simp
  fix j assume "j < length v"
  then have j: "j < N * 2 * 3" using v by simp
  then obtain b i k where c: "b < N" "i < 2" "k < 3" "j = (b * 2 + i) * 3 + k"
      "j div 3 = b * 2 + i" "j mod 3 = k" "(j div 3) mod 2 = i" "j div 6 = b"
    by (rule index_decompose6)
  let ?D = "\<lambda>l. if l div ?P = i * N + b then mesh_real oh ow k (l mod ?P) else 0"
  have der: "partial_derivative (grid_reals N oh ow) v j l (?D l)" if "l < length gg" for l
  proof -
    from that g have "l < 2 * (N * ?P)" by simp
    then obtain i' b' p where l: "i' < 2" "b' < N" "p < ?P" "l = i' * (N * ?P) + b' * ?P + p"
      by (rule index3_decompose)
    have l': "l = (i' * N + b') * ?P + p" unfolding l(4) by (simp add: algebra_simps)
    have dm: "l div ?P = i' * N + b'" "l mod ?P = p" unfolding l' using l(3) by simp_all
    let ?r = "(b' * 2 + i') * 3"
    have f: "(\<lambda>t. grid_reals N oh ow (v[j := t]) ! l)
        = (\<lambda>t. v[j := t] ! ?r * mesh_real oh ow 0 p
               + v[j := t] ! (?r + 1) * mesh_real oh ow 1 p + v[j := t] ! (?r + 2))"
    proof
      fix t
      have "length (v[j := t]) = N * 6" using v by simp
      from grid_reals_nth(2) [OF this d l(1,2,3)]
      show "grid_reals N oh ow (v[j := t]) ! l
        = v[j := t] ! ?r * mesh_real oh ow 0 p
               + v[j := t] ! (?r + 1) * mesh_real oh ow 1 p + v[j := t] ! (?r + 2)"
        unfolding l(4) .
    qed
    have bnd: "?r < length v" "?r + 1 < length v" "?r + 2 < length v"
      using l(1,2) v by auto
    have "DERIV (\<lambda>t. v[j := t] ! ?r * mesh_real oh ow 0 p
               + v[j := t] ! (?r + 1) * mesh_real oh ow 1 p + v[j := t] ! (?r + 2)) (v ! j)
        :> (if ?r = j then 1 else 0) * mesh_real oh ow 0 p
           + (if ?r + 1 = j then 1 else 0) * mesh_real oh ow 1 p
           + (if ?r + 2 = j then 1 else 0)"
      by (intro DERIV_add DERIV_cmult_right deriv_entry bnd)
    moreover have "(if ?r = j then 1 else 0) * mesh_real oh ow 0 p
           + (if ?r + 1 = j then 1 else 0) * mesh_real oh ow 1 p
           + (if ?r + 2 = j then 1 else 0) = ?D l"
    proof -
      have e: "(i' * N + b' = i * N + b) = (i' = i \<and> b' = b)"
        using c(1) l(2) by (rule pair_index_eq [where b = b and b' = b'])
      have k: "k = 0 \<or> k = 1 \<or> k = 2" using c(3) by auto
      have jj: "(?r + a = j) = (i' = i \<and> b' = b \<and> a = k)" if "a < 3" for a
        unfolding c(4)
        using pair_index_eq [OF c(3) that, of "b' * 2 + i'" "b * 2 + i"]
          pair_index_eq [OF c(2) l(1), of b' b] by auto
      have j0: "(?r = j) = (i' = i \<and> b' = b \<and> k = 0)"
        using jj [of 0] by auto
      have j1: "(?r + 1 = j) = (i' = i \<and> b' = b \<and> k = 1)"
        using jj [of 1] by auto
      have j2: "(?r + 2 = j) = (i' = i \<and> b' = b \<and> k = 2)"
        using jj [of 2] by auto
      show ?thesis unfolding dm e j0 j1 j2 using k by (auto simp: mesh_real_def)
    qed
    ultimately show ?thesis unfolding partial_derivative_def f by simp
  qed
  have "(\<Sum>l<length gg. gg ! l * ?D l) = (\<Sum>l<(2 * N) * ?P. gg ! l * ?D l)"
    by (simp add: g algebra_simps)
  also have "\<dots> = (\<Sum>q<2 * N. \<Sum>p<?P. gg ! (q * ?P + p) * ?D (q * ?P + p))"
    by (rule sum_blocks)
  also have "\<dots> = (\<Sum>q<2 * N. if q = i * N + b
       then (\<Sum>p<?P. gg ! (q * ?P + p) * mesh_real oh ow k p) else 0)"
    by (intro sum.cong refl) simp
  also have "\<dots> = (\<Sum>p<?P. gg ! ((i * N + b) * ?P + p) * mesh_real oh ow k p)"
  proof -
    have "i * N + b < 2 * N"
    proof -
      have "i * N + b < i * N + N" using c(1) by simp
      also have "\<dots> = Suc i * N" by simp
      also have "\<dots> \<le> 2 * N" using c(2) by (intro mult_le_mono1) simp
      finally show ?thesis .
    qed
    then show ?thesis by (simp add: sum.delta)
  qed
  also have "\<dots> = grad_theta_real N oh ow gg j"
    unfolding grad_theta_real_def c(6,7,8) by (simp add: algebra_simps)
  finally have s: "grad_theta_real N oh ow gg j = (\<Sum>l<length gg. gg ! l * ?D l)" by simp
  have "map (grad_theta_real N oh ow gg) [0..<N * 6] ! j = grad_theta_real N oh ow gg j"
    using j by simp
  with der s show "\<exists>D. (\<forall>l<length gg. partial_derivative (grid_reals N oh ow) v j l (D l))
        \<and> map (grad_theta_real N oh ow gg) [0..<N * 6] ! j = (\<Sum>l<length gg. gg ! l * D l)"
    by (intro exI [of _ ?D]) simp
qed

lemma is_vjp_unique:
  assumes "is_vjp f v g r" "is_vjp f v g r'"
  shows "r' = r"
proof (rule nth_equalityI)
  show "length r' = length r" using assms by (simp add: is_vjp_def)
next
  fix j assume "j < length r'"
  then have j: "j < length v" using assms(2) by (simp add: is_vjp_def)
  from assms(1) j obtain D where D: "\<forall>l<length g. partial_derivative f v j l (D l)"
    "r ! j = (\<Sum>l<length g. g ! l * D l)" unfolding is_vjp_def by blast
  from assms(2) j obtain D' where D': "\<forall>l<length g. partial_derivative f v j l (D' l)"
    "r' ! j = (\<Sum>l<length g. g ! l * D' l)" unfolding is_vjp_def by blast
  have "D' l = D l" if "l < length g" for l
    using D(1) D'(1) that unfolding partial_derivative_def by (blast intro: DERIV_unique)
  then have "(\<Sum>l<length g. g ! l * D' l) = (\<Sum>l<length g. g ! l * D l)"
    by (intro sum.cong refl) simp
  then show "r' ! j = r ! j" using D(2) D'(2) by simp
qed

lemma grid_reals_tensor_fun:
  "tensor_fun (\<lambda>theta. transformer_grid_impl theta (int N, 1, int oh, int ow)) [N, 2, 3]
     = grid_reals N oh ow"
  by (rule ext) (simp add: tensor_fun_def grid_reals_def)

lemma finite_tensor_eqI:
  fixes r r' :: "floatX tensor"
  assumes "shape r' = shape r" "list_all is_fin (data r')" "list_all is_fin (data r)"
    "map the_fin (data r') = map the_fin (data r)"
  shows "r' = r"
proof -
  have "data r' = map Fin (map the_fin (data r'))" using assms(2) by (rule finite_list_conv)
  also have "\<dots> = map Fin (map the_fin (data r))" using assms(4) by simp
  also have "\<dots> = data r" using assms(3) by (rule finite_list_conv [symmetric])
  finally show ?thesis using assms(1) by simp
qed

lemma gradt_characterisation:
  assumes th: "shape theta = [N, 2, 3]" "length (data theta) = N * 6"
    and gg: "shape grad_grid = [2, N, oh, ow]" "list_all is_fin (data grad_grid)"
      "length (data grad_grid) = 2 * (N * (oh * ow))"
    and d: "2 \<le> oh" "2 \<le> ow"
    and r: "r = \<lparr>shape = [N, 2, 3], data = map (\<lambda>m. Fin (grad_theta_real N oh ow
                 (map the_fin (data grad_grid)) m)) [0..<N * 2 * 3]\<rparr>"
  shows "transformer_gradt_impl theta grad_grid r' = (r' = r)"
proof -
  let ?f = "\<lambda>theta. transformer_grid_impl theta (int N, 1, int oh, int ow)"
  let ?gg = "map the_fin (data grad_grid)"
  let ?v = "map the_fin (data theta)"
  have unf: "transformer_gradt_impl theta grad_grid r' = grad ?f theta grad_grid r'" for r'
    by (simp add: transformer_gradt_impl_def th gg Let_def)
  from grid_impl_nth [OF th(1), of 1 oh ow] obtain out where
    out: "?f theta = Inr out" "shape out = shape grad_grid" unfolding gg(1) by blast
  have vjp: "is_vjp (grid_reals N oh ow) ?v ?gg (map (grad_theta_real N oh ow ?gg) [0..<N * 6])"
    by (rule grid_reals_vjp) (simp_all add: th gg d)
  have dr: "map the_fin (data r) = map (grad_theta_real N oh ow ?gg) [0..<N * 6]"
    unfolding r by (simp add: comp_def mult.commute)
  have fr: "list_all is_fin (data r)" unfolding r by (simp add: list_all_iff)
  have gr: "grad ?f theta grad_grid r"
    unfolding grad_def th(1) grid_reals_tensor_fun dr using out vjp fr by (simp add: r)
  show ?thesis
  proof
    assume "transformer_gradt_impl theta grad_grid r'"
    then have g': "grad ?f theta grad_grid r'" unfolding unf .
    then have "is_vjp (grid_reals N oh ow) ?v ?gg (map the_fin (data r'))"
      unfolding grad_def th(1) grid_reals_tensor_fun by simp
    from is_vjp_unique [OF vjp this] have "map the_fin (data r') = map the_fin (data r)"
      unfolding dr .
    moreover have "shape r' = shape r" "list_all is_fin (data r')"
      using g' unfolding grad_def by (simp_all add: th r)
    ultimately show "r' = r" using fr by (intro finite_tensor_eqI)
  next
    assume "r' = r"
    then show "transformer_gradt_impl theta grad_grid r'" unfolding unf using gr by simp
  qed
qed

lemma grad_theta_entry:
  assumes gg: "list_all is_fin (data grad_grid)"
      "length (data grad_grid) = 2 * (N * (oh * ow))"
    and d: "2 \<le> oh" "2 \<le> ow"
    and c: "b < N" "i < 2" "k < 3"
  shows "grad_theta_real N oh ow (map the_fin (data grad_grid)) ((b * 2 + i) * 3 + k)
     = (\<Sum>p<oh * ow. the_fin (data grad_grid ! ravel [2, N, oh * ow] [i, b, p])
          * the_fin ((map (mesh_x ow) [0..<oh * ow] @ map (mesh_y oh ow) [0..<oh * ow]
                 @ replicate (oh * ow) (Fin 1)) ! ravel [3, oh * ow] [k, p]))"
proof -
  let ?P = "oh * ow"
  let ?m = "(b * 2 + i) * 3 + k"
  have m: "?m div 3 = b * 2 + i" "?m mod 3 = k"
    using c(3) by (simp_all only: div_mult_add mod_mult_add)
  have m2: "(b * 2 + i) mod 2 = i" using c(2) by (simp only: mod_mult_add)
  have "?m div 6 = (?m div 3) div 2" by (simp add: div_mult2_eq)
  also have "\<dots> = b" unfolding m using c(2) by simp
  finally have m6: "?m div 6 = b" .
  have tm: "map the_fin (data grad_grid) ! (i * (N * ?P) + b * ?P + p) * mesh_real oh ow k p
      = the_fin (data grad_grid ! ravel [2, N, ?P] [i, b, p])
          * the_fin ((map (mesh_x ow) [0..<?P] @ map (mesh_y oh ow) [0..<?P]
                 @ replicate ?P (Fin 1)) ! ravel [3, ?P] [k, p])" if "p < ?P" for p
  proof -
    have 1: "ravel [2, N, ?P] [i, b, p] = i * (N * ?P) + b * ?P + p" by simp
    have 2: "ravel [3, ?P] [k, p] = k * ?P + p" by simp
    show ?thesis
      unfolding 1 2 mesh_data_nth [OF d c(3) that]
      using index3_bound [OF c(2,1) that] gg(2) by simp
  qed
  show ?thesis
    unfolding grad_theta_real_def m m2 m6
    by (rule sum.cong [OF refl]) (simp only: tm lessThan_iff)
qed

text \<open>
  Claim C5.  Let \<^verbatim>\<open>gradGrid\<close> have shape \<open>(2, N, outH, outW)\<close> and finite entries,
  with \<open>outH\<close> and \<open>outW\<close> at least 2.  There is one tensor \<open>r\<close> of shape
  \<open>(N, 2, 3)\<close> such that, for every \<^verbatim>\<open>theta\<close> of shape \<open>(N, 2, 3)\<close>, the gradient of
  \<open>transformer_gradt_impl\<close> is \<open>r\<close> and nothing else, and \<open>gridBackward\<close>, the
  product the spec words, returns \<open>r\<close>.  Entry \<open>(b, i, k)\<close> of \<open>r\<close> is the sum over the
  grid locations \<open>p\<close> of entry \<open>(i, b, p)\<close> of \<^verbatim>\<open>gradGrid\<close> times entry \<open>(k, p)\<close> of
  the mesh that \<open>meshgrid\<close>, the construction of the grid generator, builds for
  \<open>outH\<close> and \<open>outW\<close>.  Since \<open>r\<close> is the same for every \<^verbatim>\<open>theta\<close>, neither the mesh
  nor the map from \<^verbatim>\<open>gradGrid\<close> to the gradient depends on the values of \<^verbatim>\<open>theta\<close>.
\<close>

theorem grid_gradient_is_grad_grid_times_mesh:
  assumes "shape grad_grid = [2, N, oh, ow]" "list_all is_fin (data grad_grid)"
      "length (data grad_grid) = 2 * (N * (oh * ow))"
    and "2 \<le> oh" "2 \<le> ow"
  shows "\<exists>r mesh. meshgrid (int oh) (int ow) = Inr mesh \<and> shape r = [N, 2, 3]
     \<and> (\<forall>b<N. \<forall>i<2. \<forall>k<3. data r ! ravel [N, 2, 3] [b, i, k]
           = Fin (\<Sum>p<oh * ow. the_fin (data grad_grid ! ravel [2, N, oh * ow] [i, b, p])
                                 * the_fin (data mesh ! ravel [3, oh * ow] [k, p])))
     \<and> (\<forall>theta. shape theta = [N, 2, 3] \<and> length (data theta) = N * 6 \<longrightarrow>
           gridBackward theta grad_grid = Inr r
           \<and> (\<forall>r'. transformer_gradt_impl theta grad_grid r' = (r' = r)))"
proof -
  let ?P = "oh * ow"
  let ?gg = "map the_fin (data grad_grid)"
  let ?mesh = "\<lparr>shape = [3, ?P],
          data = map (mesh_x ow) [0..<?P] @ map (mesh_y oh ow) [0..<?P]
                 @ replicate ?P (Fin 1)\<rparr>"
  let ?r = "\<lparr>shape = [N, 2, 3],
       data = map (\<lambda>m. Fin (grad_theta_real N oh ow ?gg m)) [0..<N * 2 * 3]\<rparr>"
  have dg: "data grad_grid = map Fin ?gg" using assms(2) by (rule finite_list_conv)
  have "meshgrid (int oh) (int ow) = Inr ?mesh" by (rule meshgrid_nat)
  moreover have "shape ?r = [N, 2, 3]" by simp
  moreover have "data ?r ! ravel [N, 2, 3] [b, i, k]
           = Fin (\<Sum>p<?P. the_fin (data grad_grid ! ravel [2, N, ?P] [i, b, p])
                            * the_fin (data ?mesh ! ravel [3, ?P] [k, p]))"
    if "b < N" "i < 2" "k < 3" for b i k
  proof -
    have e: "ravel [N, 2, 3] [b, i, k] = (b * 2 + i) * 3 + k" by (rule ravel3)
    have "(b * 2 + i) * 3 + k < N * 2 * 3" using that by simp
    then show ?thesis
      unfolding e using grad_theta_entry [OF assms(2-5) that] by simp
  qed
  moreover have "gridBackward theta grad_grid = Inr ?r
      \<and> (\<forall>r'. transformer_gradt_impl theta grad_grid r' = (r' = ?r))"
    if "shape theta = [N, 2, 3] \<and> length (data theta) = N * 6" for theta
  proof -
    have len: "length ?gg = 2 * (N * ?P)" using assms(3) by simp
    have "gridBackward theta grad_grid = Inr ?r"
      using that assms(1) dg len assms(4,5) by (intro gradt_explicit) simp_all
    moreover have "transformer_gradt_impl theta grad_grid r' = (r' = ?r)" for r'
      using that assms by (intro gradt_characterisation) simp_all
    ultimately show ?thesis by simp
  qed
  ultimately show ?thesis by blast
qed

theorem grid_gradient_is_grad_grid_times_mesh_witness:
  "shape ex_grad_grid = [2, 1, 2, 2] \<and> list_all is_fin (data ex_grad_grid)
   \<and> length (data ex_grad_grid) = 2 * (1 * (2 * 2))
   \<and> gridBackward (identity_theta 1) ex_grad_grid
       = Inr \<lparr>shape = [1, 2, 3], data = [Fin 2, Fin 4, Fin 10, Fin 2, Fin 4, Fin 26]\<rparr>
   \<and> transformer_gradt_impl (identity_theta 1) ex_grad_grid
       \<lparr>shape = [1, 2, 3], data = [Fin 2, Fin 4, Fin 10, Fin 2, Fin 4, Fin 26]\<rparr>
   \<and> transformer_gradt_impl shift_theta ex_grad_grid
       \<lparr>shape = [1, 2, 3], data = [Fin 2, Fin 4, Fin 10, Fin 2, Fin 4, Fin 26]\<rparr>"
proof -
  have h: "shape ex_grad_grid = [2, 1, 2, 2]" "list_all is_fin (data ex_grad_grid)"
    "length (data ex_grad_grid) = 2 * (1 * (2 * 2))"
    by (simp_all add: ex_grad_grid_def)
  have v: "gridBackward (identity_theta 1) ex_grad_grid
       = Inr \<lparr>shape = [1, 2, 3], data = [Fin 2, Fin 4, Fin 10, Fin 2, Fin 4, Fin 26]\<rparr>"
    unfolding ex_grad_grid_def identity_theta_def by code_simp
  have t: "shape (identity_theta 1) = [1, 2, 3] \<and> length (data (identity_theta 1)) = 1 * 6"
    "shape shift_theta = [1, 2, 3] \<and> length (data shift_theta) = 1 * 6"
    by (simp_all add: identity_theta_def shift_theta_def)
  from grid_gradient_is_grad_grid_times_mesh [OF h] obtain r where
    r: "\<forall>theta. shape theta = [1, 2, 3] \<and> length (data theta) = 1 * 6 \<longrightarrow>
           gridBackward theta ex_grad_grid = Inr r
           \<and> (\<forall>r'. transformer_gradt_impl theta ex_grad_grid r' = (r' = r))"
    by auto
  from r t(1) v have "r = \<lparr>shape = [1, 2, 3], data = [Fin 2, Fin 4, Fin 10, Fin 2, Fin 4, Fin 26]\<rparr>"
    by simp
  with r t h v show ?thesis by simp
qed

section \<open>The gradient with respect to the input\<close>





















end
